theory Spec2Isabelle
  imports Complex_Main "HOL-Library.AList"
begin

section \<open>Conventions of the embedding\<close>

text \<open>
  The TypeScript sources under \<^verbatim>\<open>src/utils\<close> are embedded function by function.
  \<^item> A JavaScript \<^verbatim>\<open>number\<close> that carries a price, a quantity or a score is a \<^typ>\<open>real\<close>:
    the arithmetic is exact, rounding of IEEE doubles is not modelled. Where the source
    can divide by zero and then compares the outcome, the outcome of the comparison on
    \<^verbatim>\<open>Infinity\<close> or \<^verbatim>\<open>NaN\<close> is written out.
  \<^item> Millisecond timestamps, tick indices and counters are \<^typ>\<open>int\<close>.
  \<^item> An optional field (\<^verbatim>\<open>delta?: number\<close>) is an \<^typ>\<open>'a option\<close>.
  \<^item> A \<^verbatim>\<open>Map\<close> whose iteration order is observed is an association list in insertion
    order (\<^const>\<open>AList.update\<close> overwrites in place or appends, as \<^verbatim>\<open>Map.set\<close> does);
    a \<^verbatim>\<open>Map\<close> that is only looked up is a partial function.
  \<^item> Reading a property of \<^verbatim>\<open>undefined\<close> throws a \<^verbatim>\<open>TypeError\<close>; such a function
    returns a sum with the error on the left.
  \<^item> \<^verbatim>\<open>Date.now()\<close> and \<^verbatim>\<open>Math.random()\<close> are inputs of the functions that call them.
\<close>

section \<open>Data model (\<^verbatim>\<open>src/types.ts\<close>)\<close>

datatype Bias = neutral | bullish | bearish

record Candle =
  timestamp :: int
  openPrice :: real
  high :: real
  low :: real
  close :: real
  volume :: real
  takerBuyVolume :: real
  delta :: "real option"
  cvd :: "real option"
  vwap :: "real option"
  vwapStd :: "real option"
  divergence :: "Bias option"

record ProfileLevel =
  price :: real
  vol :: real

record ProfileMetrics =
  levels :: "ProfileLevel list"
  poc :: real
  vah :: real
  val :: real
  totalVolume :: real
  sessionHigh :: real
  sessionLow :: real

datatype AuctionMode =
  BALANCED | ROTATIONAL | INITIATIVE_BUY | INITIATIVE_SELL
  | FAILED_AUCTION_HIGH | FAILED_AUCTION_LOW

record AuctionContext =
  mode :: AuctionMode
  confidence :: real
  scenario :: string
  bias :: Bias

datatype Side = bid | ask

record Trade =
  tradeId :: int
  tradePrice :: real
  tradeQty :: real
  tradeTime :: int
  isBuyerMaker :: bool
  isLarge :: bool

record OrderBookLevel =
  lvlPrice :: real
  qty :: real
  total :: real
  depthRatio :: real

record EnrichedLevel = OrderBookLevel +
  lvlType :: Side
  cumulativeQty :: real
  deltaQty :: real
  tradeVol :: real
  absorption :: real
  isIceberg :: bool
  icebergVol :: real
  isSpoof :: bool
  age :: int

section \<open>Auction context (\<^verbatim>\<open>src/utils/analytics.ts\<close>)\<close>

text \<open>\<^verbatim>\<open>x || 0\<close> on an optional number.\<close>

definition orZero :: "real option \<Rightarrow> real" where
  "orZero x = (case x of None \<Rightarrow> 0 | Some v \<Rightarrow> v)"

text \<open>
  \<^verbatim>\<open>Math.max(...xs)\<close> and \<^verbatim>\<open>Math.min(...xs)\<close>. The source applies them to the last
  five of at least five candles, so the list is never empty there.
\<close>

definition maxOf :: "real list \<Rightarrow> real" where
  "maxOf xs = fold max (tl xs) (hd xs)"

definition minOf :: "real list \<Rightarrow> real" where
  "minOf xs = fold min (tl xs) (hd xs)"

text \<open>\<^verbatim>\<open>xs.slice(-k)\<close>: the last \<open>k\<close> elements, or all of them.\<close>

definition sliceLast :: "nat \<Rightarrow> 'a list \<Rightarrow> 'a list" where
  "sliceLast k xs = drop (length xs - k) xs"

definition calculateAuctionContext ::
  "real \<Rightarrow> ProfileMetrics \<Rightarrow> real \<Rightarrow> Candle list \<Rightarrow> AuctionContext" where
  "calculateAuctionContext lastPrice profile vwapNow recentCandles =
    (if length recentCandles < 5
     then \<lparr>mode = BALANCED, confidence = 0, scenario = ''Gathering data...'', bias = neutral\<rparr>
     else
      let lastC = last recentCandles;
          recentHighs = maxOf (map high (sliceLast 5 recentCandles));
          recentLows = minOf (map low (sliceLast 5 recentCandles));
          m = (if recentHighs > vah profile \<and> lastPrice < vah profile
                  \<and> close lastC < openPrice lastC then FAILED_AUCTION_HIGH
               else if recentLows < val profile \<and> lastPrice > val profile
                  \<and> close lastC > openPrice lastC then FAILED_AUCTION_LOW
               else if lastPrice > vah profile then INITIATIVE_BUY
               else if lastPrice < val profile then INITIATIVE_SELL
               else
                 let distToVAH = \<bar>lastPrice - vah profile\<bar>;
                     distToVAL = \<bar>lastPrice - val profile\<bar>;
                     range = vah profile - val profile
                 in if distToVAH < range * 0.1 \<or> distToVAL < range * 0.1
                    then ROTATIONAL else BALANCED);
          d = orZero (delta lastC);
          v = volume lastC;
          c0 = (50 :: real);
          c1 = (if m = INITIATIVE_BUY \<and> d > 0 \<and> lastPrice > vwapNow then c0 + 25 else c0);
          c2 = (if m = INITIATIVE_SELL \<and> d < 0 \<and> lastPrice < vwapNow then c1 + 25 else c1);
          c3 = (if m = FAILED_AUCTION_HIGH \<and> d < 0 then c2 + 30 else c2);
          c4 = (if m = FAILED_AUCTION_LOW \<and> d > 0 then c3 + 30 else c3);
          c5 = (if m = BALANCED \<and> \<bar>d\<bar> < v * 0.1 then c4 + 20 else c4);
          conf = min 100 (max 0 c5)
      in (case m of
            INITIATIVE_BUY \<Rightarrow>
              \<lparr>mode = m, confidence = conf,
               scenario = ''Acceptance above VA. Buyers chasing price. Target extension.'',
               bias = bullish\<rparr>
          | INITIATIVE_SELL \<Rightarrow>
              \<lparr>mode = m, confidence = conf,
               scenario = ''Weakness below VA. Sellers aggressive. Target lower liquidity.'',
               bias = bearish\<rparr>
          | FAILED_AUCTION_HIGH \<Rightarrow>
              \<lparr>mode = m, confidence = conf,
               scenario = ''Trap at highs. Buyers exhausted. Return to POC likely.'',
               bias = bearish\<rparr>
          | FAILED_AUCTION_LOW \<Rightarrow>
              \<lparr>mode = m, confidence = conf,
               scenario = ''Trap at lows. Demand found. Return to value expected.'',
               bias = bullish\<rparr>
          | ROTATIONAL \<Rightarrow>
              (if lastPrice > poc profile
               then \<lparr>mode = m, confidence = conf,
                     scenario = ''Testing VAH supply. Break or rotate to POC.'',
                     bias = bullish\<rparr>
               else \<lparr>mode = m, confidence = conf,
                     scenario = ''Testing VAL demand. Break or rotate to POC.'',
                     bias = bearish\<rparr>)
          | BALANCED \<Rightarrow>
              \<lparr>mode = m, confidence = conf,
               scenario = ''Market in balance. Await reaction at extremes.'',
               bias = neutral\<rparr>))"

section \<open>Volume profile (\<^verbatim>\<open>calculateProfile\<close> in \<^verbatim>\<open>src/utils/analytics.ts\<close>)\<close>

datatype error = TypeError

text \<open>
  \<^verbatim>\<open>xs[i]\<close> on a JavaScript array: \<^verbatim>\<open>undefined\<close> (here \<open>None\<close>) outside \<open>0 .. length - 1\<close>.
\<close>

definition elemAt :: "'a list \<Rightarrow> int \<Rightarrow> 'a option" where
  "elemAt xs i = (if 0 \<le> i \<and> i < int (length xs) then Some (xs ! nat i) else None)"

text \<open>\<^verbatim>\<open>levels[i].volume\<close>: reading \<^verbatim>\<open>volume\<close> of \<^verbatim>\<open>undefined\<close> throws.\<close>

definition volAt :: "ProfileLevel list \<Rightarrow> int \<Rightarrow> error + real" where
  "volAt lvls i = (case elemAt lvls i of None \<Rightarrow> Inl TypeError | Some l \<Rightarrow> Inr (vol l))"

text \<open>\<^verbatim>\<open>levels[i]?.price || poc\<close>: the fallback is taken for \<^verbatim>\<open>undefined\<close> and for a price of 0.\<close>

definition priceOr :: "ProfileLevel list \<Rightarrow> int \<Rightarrow> real \<Rightarrow> real" where
  "priceOr lvls i dflt =
     (case elemAt lvls i of None \<Rightarrow> dflt | Some l \<Rightarrow> if price l = 0 then dflt else price l)"

text \<open>\<^verbatim>\<open>xs.findIndex(P)\<close>: the first index whose element satisfies \<open>P\<close>, or \<open>-1\<close>.\<close>

fun findIndex :: "('a \<Rightarrow> bool) \<Rightarrow> 'a list \<Rightarrow> int" where
  "findIndex P [] = -1"
| "findIndex P (x # xs) =
     (if P x then 0 else (let r = findIndex P xs in if r < 0 then -1 else r + 1))"

text \<open>
  The inner \<^verbatim>\<open>for (t = lowTick; t <= highTick; t++)\<close> loop of one candle: every spanned
  tick receives \<^verbatim>\<open>volume / numTicks\<close>. The map is keyed by the tick index.
\<close>

definition addTick :: "real \<Rightarrow> int \<Rightarrow> (int \<times> real) list \<Rightarrow> (int \<times> real) list" where
  "addTick volumePerTick t volumeMap =
     AList.update t (orZero (map_of volumeMap t) + volumePerTick) volumeMap"

definition addCandle :: "real \<Rightarrow> (int \<times> real) list \<Rightarrow> Candle \<Rightarrow> (int \<times> real) list" where
  "addCandle tickSize volumeMap candle =
     (let lowTick = \<lfloor>low candle / tickSize\<rfloor>;
          highTick = \<lfloor>high candle / tickSize\<rfloor>;
          numTicks = highTick - lowTick + 1;
          volumePerTick = volume candle / real_of_int numTicks
      in fold (addTick volumePerTick) [lowTick..highTick] volumeMap)"

text \<open>The \<^verbatim>\<open>levels.forEach\<close> that finds the point of control, started at \<open>(poc, maxVol) = (0, -1)\<close>.\<close>

definition pocStep :: "real \<times> real \<Rightarrow> ProfileLevel \<Rightarrow> real \<times> real" where
  "pocStep pm l = (if vol l > snd pm then (price l, vol l) else pm)"

definition findPoc :: "ProfileLevel list \<Rightarrow> real \<times> real" where
  "findPoc lvls = foldl pocStep (0, -1) lvls"

text \<open>The variables of the value-area loop.\<close>

record VAState =
  currentVolume :: real
  upperIndex :: int
  lowerIndex :: int

text \<open>
  One pass through the body of the \<^verbatim>\<open>while\<close> loop, up to (not including) the
  \<^verbatim>\<open>break\<close> test.
\<close>

definition expandStep :: "ProfileLevel list \<Rightarrow> VAState \<Rightarrow> error + VAState" where
  "expandStep lvls s =
    (case (if upperIndex s < int (length lvls) - 1 then volAt lvls (upperIndex s + 1) else Inr 0) of
       Inl e \<Rightarrow> Inl e
     | Inr nextUpper \<Rightarrow>
    (case (if lowerIndex s > 0 then volAt lvls (lowerIndex s - 1) else Inr 0) of
       Inl e \<Rightarrow> Inl e
     | Inr nextLower \<Rightarrow>
       if nextUpper > nextLower
       then (case volAt lvls (upperIndex s + 1) of
               Inl e \<Rightarrow> Inl e
             | Inr v \<Rightarrow> Inr (s\<lparr>upperIndex := upperIndex s + 1,
                              currentVolume := currentVolume s + v\<rparr>))
       else (case volAt lvls (lowerIndex s - 1) of
               Inl e \<Rightarrow> Inl e
             | Inr v \<Rightarrow> Inr (s\<lparr>lowerIndex := lowerIndex s - 1,
                              currentVolume := currentVolume s + v\<rparr>))))"

lemma expandStep_measure:
  "expandStep lvls s = Inr s' \<Longrightarrow>
   nat (int (length lvls) - upperIndex s') + nat (lowerIndex s' + 1)
     < nat (int (length lvls) - upperIndex s) + nat (lowerIndex s + 1)"
  by (auto simp: expandStep_def volAt_def elemAt_def split: if_splits sum.splits option.splits)

function expand :: "ProfileLevel list \<Rightarrow> real \<Rightarrow> VAState \<Rightarrow> error + VAState" where
  "expand lvls targetVolume s =
    (if currentVolume s < targetVolume
        \<and> (upperIndex s < int (length lvls) - 1 \<or> lowerIndex s > 0)
     then (case expandStep lvls s of
             Inl e \<Rightarrow> Inl e
           | Inr s' \<Rightarrow>
               if upperIndex s' = int (length lvls) - 1 \<and> lowerIndex s' = 0 then Inr s'
               else expand lvls targetVolume s')
     else Inr s)"
  by pat_completeness auto
termination
  by (relation "measure (\<lambda>(lvls, targetVolume, s).
        nat (int (length lvls) - upperIndex s) + nat (lowerIndex s + 1))")
     (auto dest: expandStep_measure)

declare expand.simps [simp del]

text \<open>
  The histogram part of \<^verbatim>\<open>calculateProfile\<close>: the \<^verbatim>\<open>volumeMap\<close> filled by
  \<^verbatim>\<open>candles.forEach\<close>, turned into levels of price \<^verbatim>\<open>tickIndex * tickSize\<close> and
  sorted by price with a stable sort.
\<close>

definition buildLevels :: "Candle list \<Rightarrow> real \<Rightarrow> ProfileLevel list" where
  "buildLevels candles tickSize =
     sort_key price
       (map (\<lambda>(tickIndex, v). \<lparr>price = real_of_int tickIndex * tickSize, vol = v\<rparr>)
            (foldl (addCandle tickSize) [] candles))"

text \<open>
  \<^verbatim>\<open>calculateProfile\<close>. The \<^verbatim>\<open>candles.forEach\<close> keeps four independent accumulators;
  \<^verbatim>\<open>sessionHigh\<close> and \<^verbatim>\<open>sessionLow\<close> start at \<^verbatim>\<open>-Infinity\<close> and
  \<^verbatim>\<open>Infinity\<close>, so on the non-empty list that reaches them they are the maximum of the
  highs and the minimum of the lows.
\<close>

definition calculateProfile :: "Candle list \<Rightarrow> real \<Rightarrow> error + ProfileMetrics" where
  "calculateProfile candles tickSize =
    (if length candles = 0
     then Inr \<lparr>levels = [], poc = 0, vah = 0, val = 0, totalVolume = 0,
               sessionHigh = 0, sessionLow = 0\<rparr>
     else
      let lvls = buildLevels candles tickSize;
          sHigh = maxOf (map high candles);
          sLow = minOf (map low candles);
          totalVol = foldl (+) 0 (map volume candles);
          (pocPrice, maxVol) = findPoc lvls;
          targetVolume = totalVol * 0.7;
          pocIndex = findIndex (\<lambda>l. price l = pocPrice) lvls
      in (case expand lvls targetVolume
                 \<lparr>currentVolume = maxVol, upperIndex = pocIndex, lowerIndex = pocIndex\<rparr> of
            Inl e \<Rightarrow> Inl e
          | Inr s \<Rightarrow>
              Inr \<lparr>levels = lvls, poc = pocPrice,
                   vah = priceOr lvls (upperIndex s) pocPrice,
                   val = priceOr lvls (lowerIndex s) pocPrice,
                   totalVolume = totalVol, sessionHigh = sHigh, sessionLow = sLow\<rparr>))"

text \<open>The volume of the levels whose price lies in the value area \<open>[val, vah]\<close>.\<close>

definition valueAreaVolume :: "ProfileMetrics \<Rightarrow> real" where
  "valueAreaVolume m =
     sum_list (map vol (filter (\<lambda>l. val m \<le> price l \<and> price l \<le> vah m) (levels m)))"

section \<open>Order-book level analytics (\<^verbatim>\<open>src/utils/domAnalytics.ts\<close>)\<close>

definition SPOOF_PULL_THRESHOLD :: real where
  "SPOOF_PULL_THRESHOLD = 5000"

text \<open>\<^verbatim>\<open>tradeMap.get(p) || 0\<close>.\<close>

definition getOrZero :: "(real \<rightharpoonup> real) \<Rightarrow> real \<Rightarrow> real" where
  "getOrZero m p = orZero (m p)"

text \<open>Step 1 of \<^verbatim>\<open>analyzeDOM\<close>: executed quantity per price, for the trades that hit this side.\<close>

definition addTrade :: "Side \<Rightarrow> (real \<rightharpoonup> real) \<Rightarrow> Trade \<Rightarrow> (real \<rightharpoonup> real)" where
  "addTrade side tradeMap t =
    (if (side = bid \<and> isBuyerMaker t) \<or> (side = ask \<and> \<not> isBuyerMaker t)
     then tradeMap(tradePrice t \<mapsto> getOrZero tradeMap (tradePrice t) + tradeQty t)
     else tradeMap)"

definition aggregateTrades :: "Side \<Rightarrow> Trade list \<Rightarrow> (real \<rightharpoonup> real)" where
  "aggregateTrades side recentTrades = foldl (addTrade side) Map.empty recentTrades"

text \<open>
  The body of the \<^verbatim>\<open>newLevels.map\<close> callback. It receives the running \<^verbatim>\<open>cumulative\<close>
  after the level's own quantity has been added.
\<close>

definition enrichLevel ::
  "Side \<Rightarrow> (real \<rightharpoonup> EnrichedLevel) \<Rightarrow> (real \<rightharpoonup> real) \<Rightarrow> real \<Rightarrow> OrderBookLevel
    \<Rightarrow> EnrichedLevel" where
  "enrichLevel side prevLevels tradeMap cumulative level =
    (let prev = prevLevels (lvlPrice level);
         executedVol = getOrZero tradeMap (lvlPrice level);
         dq = (case prev of
                 Some p \<Rightarrow> (qty level - qty p) + executedVol
               | None \<Rightarrow> qty level);
         spoof = (case prev of
                    Some p \<Rightarrow> (qty p - qty level) * lvlPrice level > SPOOF_PULL_THRESHOLD
                              \<and> executedVol = 0
                  | None \<Rightarrow> False);
         iceberg = (executedVol > 0 \<and> dq \<ge> 0);
         iceVol0 = (case prev of Some p \<Rightarrow> icebergVol p | None \<Rightarrow> 0);
         iceVol = (if iceberg then iceVol0 + executedVol else iceVol0);
         absorptionScore = (if executedVol > 0 \<and> qty level > 0
                            then executedVol / qty level else 0);
         a = (case prev of Some p \<Rightarrow> age p + 1 | None \<Rightarrow> 0)
     in \<lparr>lvlPrice = lvlPrice level, qty = qty level, total = total level,
         depthRatio = depthRatio level,
         lvlType = side, cumulativeQty = cumulative, deltaQty = dq,
         tradeVol = executedVol, absorption = absorptionScore,
         isIceberg = iceberg, icebergVol = iceVol, isSpoof = spoof, age = a\<rparr>)"

fun enrichLevels ::
  "Side \<Rightarrow> (real \<rightharpoonup> EnrichedLevel) \<Rightarrow> (real \<rightharpoonup> real) \<Rightarrow> real \<Rightarrow> OrderBookLevel list
    \<Rightarrow> EnrichedLevel list" where
  "enrichLevels side prevLevels tradeMap cumulative [] = []"
| "enrichLevels side prevLevels tradeMap cumulative (level # rest) =
     enrichLevel side prevLevels tradeMap (cumulative + qty level) level
       # enrichLevels side prevLevels tradeMap (cumulative + qty level) rest"

definition analyzeDOM ::
  "OrderBookLevel list \<Rightarrow> (real \<rightharpoonup> EnrichedLevel) \<Rightarrow> Trade list \<Rightarrow> Side
    \<Rightarrow> EnrichedLevel list" where
  "analyzeDOM newLevels prevLevels recentTrades side =
     enrichLevels side prevLevels (aggregateTrades side recentTrades) 0 newLevels"

section \<open>Persistent event engine (\<^verbatim>\<open>src/utils/eventEngine.ts\<close>)\<close>

datatype PersistentEventType = TypeICE | TypeABSORPTION | TypeSTACK | TypePULL | TypeFAIL

datatype PersistenceWindow = W15 | W30 | W60 | SESSION

datatype EventState = NEUTRAL | STACK | ABSORPTION | HOLDING | WEAKENING | FAIL | BROKEN

text \<open>
  The value of \<^verbatim>\<open>1 - (event.volume / event.peakVolume)\<close>. A peak volume of 0 makes the
  quotient infinite or \<^verbatim>\<open>NaN\<close>; the comparisons of \<^verbatim>\<open>calculateFailConfidence\<close> are
  then decided as IEEE arithmetic decides them.
\<close>

datatype jsnum = Finite real | PlusInfinity | MinusInfinity | NotANumber

definition remDropOf :: "real \<Rightarrow> real \<Rightarrow> jsnum" where
  "remDropOf v peak =
     (if peak \<noteq> 0 then Finite (1 - v / peak)
      else if v > 0 then MinusInfinity
      else if v < 0 then PlusInfinity
      else NotANumber)"

fun jsGreater :: "jsnum \<Rightarrow> real \<Rightarrow> bool" where
  "jsGreater (Finite x) c = (x > c)"
| "jsGreater PlusInfinity c = True"
| "jsGreater MinusInfinity c = False"
| "jsGreater NotANumber c = False"

fun jsLess :: "jsnum \<Rightarrow> real \<Rightarrow> bool" where
  "jsLess (Finite x) c = (x < c)"
| "jsLess PlusInfinity c = False"
| "jsLess MinusInfinity c = True"
| "jsLess NotANumber c = False"

text \<open>
  The event id is the string \<^verbatim>\<open>`${side}-${lvl.price}`\<close>; it is kept as the pair it is
  built from.
\<close>

record PersistentEvent =
  evId :: "Side \<times> real"
  evType :: PersistentEventType
  evPrice :: real
  evSide :: Side
  state :: EventState
  firstDetected :: int
  lastConfirmed :: int
  failTime :: "int option"
  evVolume :: real
  peakVolume :: real
  strength :: real
  confirmations :: int
  failedPushes :: int
  failConfidence :: real
  remDropRatio :: "jsnum option"
  isActive :: bool
  isRetest :: bool
  isFailed :: bool

text \<open>
  The fields of the class: \<^verbatim>\<open>events\<close> in insertion order (the state machine iterates
  over it), \<^verbatim>\<open>windowMinutes\<close>, and \<^verbatim>\<open>failCooldowns\<close> from price bucket to the time the
  cooldown ends.
\<close>

record EventEngine =
  events :: "((Side \<times> real) \<times> PersistentEvent) list"
  windowMinutes :: int
  failCooldowns :: "int \<rightharpoonup> int"

definition newEventEngine :: EventEngine where
  "newEventEngine = \<lparr>events = [], windowMinutes = 30, failCooldowns = Map.empty\<rparr>"

definition setWindow :: "PersistenceWindow \<Rightarrow> EventEngine \<Rightarrow> EventEngine" where
  "setWindow w eng =
     eng\<lparr>windowMinutes := (case w of SESSION \<Rightarrow> 480 | W15 \<Rightarrow> 15 | W30 \<Rightarrow> 30 | W60 \<Rightarrow> 60)\<rparr>"

definition calculateFailConfidence :: "PersistentEvent \<Rightarrow> jsnum \<Rightarrow> int \<Rightarrow> real" where
  "calculateFailConfidence event remDrop ageMs =
    (let s0 = (50 :: real);
         s1 = (if state event = HOLDING then s0 + 20 else s0);
         s2 = (if evType event = TypeABSORPTION \<or> evType event = TypeICE then s1 + 15 else s1);
         s3 = (if ageMs > 300000 then s2 + 15 else if ageMs < 120000 then s2 - 10 else s2);
         s4 = (if jsGreater remDrop 0.5 then s3 + 25
               else if jsLess remDrop 0.1 then s3 - 20 else s3);
         s5 = (if failedPushes event > 2 then s4 + 20
               else if failedPushes event = 0 then s4 - 15 else s4)
     in min 100 (max 0 s5))"

text \<open>The detection chain at the head of the \<^verbatim>\<open>levels.forEach\<close> callback of \<^verbatim>\<open>processLevels\<close>.\<close>

definition detect :: "EnrichedLevel \<Rightarrow> (PersistentEventType \<times> real) option" where
  "detect lvl =
     (if isIceberg lvl then Some (TypeICE, 80)
      else if absorption lvl > 1.5 then Some (TypeABSORPTION, 80)
      else if isSpoof lvl then Some (TypePULL, 90)
      else if qty lvl * lvlPrice lvl > 150000 \<and> age lvl > 5 then Some (TypeSTACK, 60)
      else None)"

text \<open>
  The update of an existing event that is neither \<open>FAIL\<close> nor \<open>BROKEN\<close>, in the order
  of the source: \<^verbatim>\<open>lastConfirmed\<close> is overwritten first, the failed-push test reads it
  afterwards.
\<close>

definition reinforce :: "PersistentEventType \<Rightarrow> int \<Rightarrow> EnrichedLevel \<Rightarrow> PersistentEvent
    \<Rightarrow> PersistentEvent" where
  "reinforce detectedType now lvl existing =
    (let e1 = existing\<lparr>lastConfirmed := now,
                       confirmations := confirmations existing + 1,
                       evVolume := qty lvl,
                       peakVolume := max (peakVolume existing) (qty lvl),
                       strength := min 100 (strength existing + 2)\<rparr>;
         e2 = (if detectedType = TypeICE \<and> evType e1 \<noteq> TypeICE
               then e1\<lparr>evType := TypeICE, state := STACK\<rparr> else e1)
     in if (now - firstDetected e2) > 60000 \<and> (now - lastConfirmed e2) > 10000
        then e2\<lparr>failedPushes := failedPushes e2 + 1\<rparr> else e2)"

definition processLevel ::
  "Side \<Rightarrow> int \<Rightarrow> real \<Rightarrow> ((Side \<times> real) \<times> PersistentEvent) list \<Rightarrow> EnrichedLevel
    \<Rightarrow> ((Side \<times> real) \<times> PersistentEvent) list" where
  "processLevel side now lastPrice evs lvl =
    (case detect lvl of
       None \<Rightarrow> evs
     | Some (detectedType, detectionStrength) \<Rightarrow>
        (let ident = (side, lvlPrice lvl) in
         case map_of evs ident of
           Some existing \<Rightarrow>
             if state existing = FAIL \<or> state existing = BROKEN then evs
             else AList.update ident (reinforce detectedType now lvl existing) evs
         | None \<Rightarrow>
             (let isBehind = (if side = bid then lastPrice < lvlPrice lvl
                              else lastPrice > lvlPrice lvl)
              in if isBehind then evs
                 else AList.update ident
                   \<lparr>evId = ident, evType = detectedType, evPrice = lvlPrice lvl, evSide = side,
                    state = (if detectedType = TypeABSORPTION \<or> detectedType = TypeICE
                             then ABSORPTION else STACK),
                    firstDetected = now, lastConfirmed = now, failTime = None,
                    evVolume = qty lvl, peakVolume = qty lvl, strength = detectionStrength,
                    confirmations = 1, failedPushes = 0, failConfidence = 0,
                    remDropRatio = None, isActive = True, isRetest = False,
                    isFailed = False\<rparr> evs)))"

definition processLevels ::
  "EnrichedLevel list \<Rightarrow> Side \<Rightarrow> int \<Rightarrow> real \<Rightarrow> ((Side \<times> real) \<times> PersistentEvent) list
    \<Rightarrow> ((Side \<times> real) \<times> PersistentEvent) list" where
  "processLevels lvls side now lastPrice evs = foldl (processLevel side now lastPrice) evs lvls"

text \<open>The 10-price-unit bucket and \<^verbatim>\<open>this.failCooldowns.get(bucket) || 0\<close>.\<close>

definition bucketOf :: "real \<Rightarrow> int" where
  "bucketOf p = \<lfloor>p / 10\<rfloor> * 10"

definition cooldownOf :: "(int \<rightharpoonup> int) \<Rightarrow> int \<Rightarrow> int" where
  "cooldownOf cds b = (case cds b of None \<Rightarrow> 0 | Some t \<Rightarrow> t)"

definition isBreached :: "real \<Rightarrow> PersistentEvent \<Rightarrow> bool" where
  "isBreached lastPrice event =
     (let tolerance = lastPrice * 0.0003
      in (evSide event = bid \<and> lastPrice < evPrice event - tolerance)
         \<or> (evSide event = ask \<and> lastPrice > evPrice event + tolerance))"

text \<open>
  The block \<^verbatim>\<open>if (isBreached && !event.isFailed && event.state !== 'BROKEN')\<close> of the
  state machine, with the cooldown map it may write.
\<close>

definition failTransition ::
  "int \<Rightarrow> int \<Rightarrow> real \<Rightarrow> (int \<rightharpoonup> int) \<Rightarrow> PersistentEvent
    \<Rightarrow> PersistentEvent \<times> (int \<rightharpoonup> int)" where
  "failTransition now ageMs lastPrice cds event =
    (if isBreached lastPrice event \<and> \<not> isFailed event \<and> state event \<noteq> BROKEN
     then
       (let isSignificant = (state event = STACK \<or> state event = ABSORPTION
                             \<or> state event = HOLDING \<or> state event = WEAKENING);
            isMature = (ageMs > 60000);
            bucket = bucketOf (evPrice event);
            cooldown = cooldownOf cds bucket
        in if isSignificant \<and> isMature \<and> now > cooldown
           then (let remDrop = remDropOf (evVolume event) (peakVolume event);
                     conf = calculateFailConfidence event remDrop ageMs
                 in if conf \<ge> 70
                    then (event\<lparr>state := FAIL, evType := TypeFAIL, isFailed := True,
                                failTime := Some now, failConfidence := conf,
                                remDropRatio := Some remDrop\<rparr>,
                          cds(bucket \<mapsto> now + 300000))
                    else (event\<lparr>state := BROKEN, isFailed := True\<rparr>, cds))
           else (event\<lparr>state := BROKEN, isFailed := True\<rparr>, cds))
     else (event, cds))"

text \<open>
  The first transitions of the state machine: the \<^verbatim>\<open>isActive\<close> flag, the promotion to
  \<open>HOLDING\<close> and the demotion to \<open>WEAKENING\<close>.
\<close>

definition promote :: "int \<Rightarrow> int \<Rightarrow> PersistentEvent \<Rightarrow> PersistentEvent" where
  "promote now ageMs event =
    (let justUpdated = ((now - lastConfirmed event) < 500);
         e1 = event\<lparr>isActive := justUpdated\<rparr>;
         e2 = (if (state e1 = STACK \<or> state e1 = ABSORPTION) \<and> ageMs > 120000
                  \<and> confirmations e1 > 10
               then e1\<lparr>state := HOLDING\<rparr> else e1)
     in if isActive e2 \<and> state e2 = HOLDING \<and> evVolume e2 < peakVolume e2 * 0.3
        then e2\<lparr>state := WEAKENING\<rparr> else e2)"

text \<open>
  The retest flag and the decay of \<^verbatim>\<open>strength\<close>. The distance of the retest test is
  \<^verbatim>\<open>Math.abs(lastPrice - event.price) / lastPrice\<close>, which is infinite or \<^verbatim>\<open>NaN\<close>, and
  so not below the bound, when \<^verbatim>\<open>lastPrice\<close> is 0. The window is never 0 ms:
  \<^verbatim>\<open>windowMinutes\<close> is 30 or one of the values \<^verbatim>\<open>setWindow\<close> writes.
\<close>

definition retestAndDecay ::
  "bool \<Rightarrow> int \<Rightarrow> int \<Rightarrow> real \<Rightarrow> PersistentEvent \<Rightarrow> PersistentEvent" where
  "retestAndDecay justUpdated ageMs windowMs lastPrice event =
    (let e1 = (if \<not> justUpdated \<and> \<not> isFailed event \<and> ageMs > 60000
                  \<and> lastPrice \<noteq> 0
                  \<and> \<bar>lastPrice - evPrice event\<bar> / lastPrice < 0.0005
               then event\<lparr>isRetest := True\<rparr> else event)
     in if state e1 \<noteq> FAIL
        then e1\<lparr>strength := max 10 (strength e1
                    * (1 - real_of_int ageMs / real_of_int windowMs))\<rparr>
        else e1)"

text \<open>
  The body of the \<^verbatim>\<open>for (const [key, event] of this.events.entries())\<close> loop of
  \<^verbatim>\<open>process\<close>; \<open>None\<close> when the entry is deleted.
\<close>

definition stepEvent ::
  "int \<Rightarrow> int \<Rightarrow> real \<Rightarrow> (int \<rightharpoonup> int) \<Rightarrow> PersistentEvent
    \<Rightarrow> PersistentEvent option \<times> (int \<rightharpoonup> int)" where
  "stepEvent now windowMs lastPrice cds event =
    (let ageMs = now - firstDetected event;
         expiry = (if state event = FAIL then 120000 else windowMs)
     in if ageMs > expiry \<and> state event \<noteq> FAIL then (None, cds)
        else if state event = FAIL
                \<and> now - (case failTime event of None \<Rightarrow> 0 | Some t \<Rightarrow> t) > expiry
        then (None, cds)
        else
         (case failTransition now ageMs lastPrice cds (promote now ageMs event) of
            (e4, cds') \<Rightarrow>
              (Some (retestAndDecay ((now - lastConfirmed event) < 500) ageMs windowMs
                       lastPrice e4),
               cds')))"

fun processEvents ::
  "int \<Rightarrow> int \<Rightarrow> real \<Rightarrow> ((Side \<times> real) \<times> PersistentEvent) list \<Rightarrow> (int \<rightharpoonup> int)
    \<Rightarrow> ((Side \<times> real) \<times> PersistentEvent) list \<times> (int \<rightharpoonup> int)" where
  "processEvents now windowMs lastPrice [] cds = ([], cds)"
| "processEvents now windowMs lastPrice ((key, event) # rest) cds =
     (case stepEvent now windowMs lastPrice cds event of
        (None, cds1) \<Rightarrow> processEvents now windowMs lastPrice rest cds1
      | (Some event', cds1) \<Rightarrow>
          (case processEvents now windowMs lastPrice rest cds1 of
             (rest', cds2) \<Rightarrow> ((key, event') # rest', cds2)))"

text \<open>The cooldown purge that runs when \<^verbatim>\<open>Math.random() > 0.95\<close>.\<close>

definition cleanupCooldowns :: "int \<Rightarrow> (int \<rightharpoonup> int) \<Rightarrow> (int \<rightharpoonup> int)" where
  "cleanupCooldowns now cds =
     (\<lambda>k. case cds k of None \<Rightarrow> None | Some t \<Rightarrow> if now > t then None else Some t)"

text \<open>
  \<^verbatim>\<open>process\<close>, with the values of \<^verbatim>\<open>Date.now()\<close> and \<^verbatim>\<open>Math.random()\<close> as the
  arguments \<open>now\<close> and \<open>rnd\<close>. It returns the rendered events and the engine after the
  call.
\<close>

definition process ::
  "EnrichedLevel list \<Rightarrow> EnrichedLevel list \<Rightarrow> real \<Rightarrow> int \<Rightarrow> real \<Rightarrow> EventEngine
    \<Rightarrow> PersistentEvent list \<times> EventEngine" where
  "process bids asks lastPrice now rnd eng =
    (let windowMs = windowMinutes eng * 60 * 1000;
         evs1 = processLevels bids bid now lastPrice (events eng);
         evs2 = processLevels asks ask now lastPrice evs1;
         (evs3, cds1) = processEvents now windowMs lastPrice evs2 (failCooldowns eng);
         cds2 = (if rnd > 0.95 then cleanupCooldowns now cds1 else cds1)
     in (filter (\<lambda>e. state e \<noteq> BROKEN) (map snd evs3),
         eng\<lparr>events := evs3, failCooldowns := cds2\<rparr>))"

text \<open>
  What holds of every event of an engine state at time \<open>now\<close> when the engine started
  empty and the clock did not run backwards: \<^verbatim>\<open>isFailed\<close> is set only together with the
  state \<open>BROKEN\<close> or \<open>FAIL\<close>, and an event in state \<open>FAIL\<close> was older than 60 s
  when it failed.
\<close>

definition eventOk :: "int \<Rightarrow> PersistentEvent \<Rightarrow> bool" where
  "eventOk now e \<longleftrightarrow>
     (isFailed e \<longrightarrow> state e = BROKEN \<or> state e = FAIL)
     \<and> (state e = FAIL \<longrightarrow> now - firstDetected e > 60000)"

text \<open>
  Some event of bucket \<open>b\<close> is in state \<open>FAIL\<close> after a call and no event of the same key
  was in state \<open>FAIL\<close> before it: an event of the bucket went to \<open>FAIL\<close> during the call.
\<close>

definition newFailIn ::
  "int \<Rightarrow> ((Side \<times> real) \<times> PersistentEvent) list \<Rightarrow> ((Side \<times> real) \<times> PersistentEvent) list
    \<Rightarrow> bool" where
  "newFailIn b before after \<longleftrightarrow>
     list_ex (\<lambda>(k, e'). state e' = FAIL \<and> bucketOf (evPrice e') = b
                \<and> \<not> list_ex (\<lambda>(k0, e). k0 = k \<and> state e = FAIL) before) after"

text \<open>The arguments of one \<^verbatim>\<open>process\<close> call, with its clock and random values.\<close>

record ProcessCall =
  callBids :: "EnrichedLevel list"
  callAsks :: "EnrichedLevel list"
  callLastPrice :: real
  callNow :: int
  callRnd :: real

definition processCall :: "ProcessCall \<Rightarrow> EventEngine \<Rightarrow> EventEngine" where
  "processCall c eng =
     snd (process (callBids c) (callAsks c) (callLastPrice c) (callNow c) (callRnd c) eng)"

text \<open>No event of bucket \<open>b\<close> goes to \<open>FAIL\<close> during any of the successive calls \<open>cs\<close>.\<close>

fun noFailDuring :: "int \<Rightarrow> EventEngine \<Rightarrow> ProcessCall list \<Rightarrow> bool" where
  "noFailDuring b eng [] = True"
| "noFailDuring b eng (c # cs) =
     (\<not> newFailIn b (events eng) (events (processCall c eng))
      \<and> noFailDuring b (processCall c eng) cs)"


text \<open>Sample events and a sample level, used to run the engine on concrete inputs.\<close>

definition holdingBid :: PersistentEvent where
  "holdingBid = \<lparr>evId = (bid, 50000), evType = TypeABSORPTION, evPrice = 50000, evSide = bid,
     state = HOLDING, firstDetected = 0, lastConfirmed = 390000, failTime = None,
     evVolume = 1, peakVolume = 10, strength = 80, confirmations = 20, failedPushes = 0,
     failConfidence = 0, remDropRatio = None, isActive = True, isRetest = False,
     isFailed = False\<rparr>"

definition holdingAsk :: PersistentEvent where
  "holdingAsk = \<lparr>evId = (ask, 50005), evType = TypeABSORPTION, evPrice = 50005, evSide = ask,
     state = HOLDING, firstDetected = 0, lastConfirmed = 390000, failTime = None,
     evVolume = 1, peakVolume = 10, strength = 80, confirmations = 20, failedPushes = 0,
     failConfidence = 0, remDropRatio = None, isActive = True, isRetest = False,
     isFailed = False\<rparr>"

definition stackBid :: "int \<Rightarrow> PersistentEvent" where
  "stackBid confirmedAt = \<lparr>evId = (bid, 50000), evType = TypeSTACK, evPrice = 50000,
     evSide = bid, state = STACK, firstDetected = 0, lastConfirmed = confirmedAt,
     failTime = None, evVolume = 4, peakVolume = 4, strength = 60, confirmations = 3,
     failedPushes = 0, failConfidence = 0, remDropRatio = None, isActive = True,
     isRetest = False, isFailed = False\<rparr>"

definition stackLevel :: EnrichedLevel where
  "stackLevel = \<lparr>lvlPrice = 50000, qty = 4, total = 4, depthRatio = 1, lvlType = bid,
     cumulativeQty = 4, deltaQty = 0, tradeVol = 0, absorption = 0, isIceberg = False,
     icebergVol = 0, isSpoof = False, age = 6\<rparr>"

section \<open>Candle enrichment (\<^verbatim>\<open>enrichCandlesWithContext\<close> in \<^verbatim>\<open>src/utils/analytics.ts\<close>)\<close>

text \<open>
  \<^verbatim>\<open>new Date(t)\<close> in UTC, as ECMAScript defines it for a time value \<open>t\<close> in milliseconds:
  the proleptic Gregorian date of day \<open>\<lfloor>t / 86400000\<rfloor>\<close> counted from 1970-01-01, as
  (year, month, day of the month). \<^verbatim>\<open>getUTCDate()\<close> is the day of the month.
\<close>

definition utcCalendarDate :: "int \<Rightarrow> int \<times> int \<times> int" where
  "utcCalendarDate t =
    (let z = t div 86400000 + 719468;
         era = z div 146097;
         doe = z - era * 146097;
         yoe = (doe - doe div 1460 + doe div 36524 - doe div 146096) div 365;
         doy = doe - (365 * yoe + yoe div 4 - yoe div 100);
         mp = (5 * doy + 2) div 153;
         d = doy - (153 * mp + 2) div 5 + 1;
         m = (if mp < 10 then mp + 3 else mp - 9);
         y = yoe + era * 400 + (if m \<le> 2 then 1 else 0)
     in (y, m, d))"

definition getUTCDate :: "int \<Rightarrow> int" where
  "getUTCDate t = snd (snd (utcCalendarDate t))"

text \<open>The accumulators of the first pass.\<close>

record EnrichState =
  cumDelta :: real
  cumVol :: real
  cumPV :: real
  sumSquaredDev :: real
  lastTime :: int

text \<open>
  The body of the \<^verbatim>\<open>candles.map\<close> callback: the new accumulators and the enriched candle.
  \<^verbatim>\<open>Math.sqrt\<close> of a negative variance (possible only with negative volumes) is
  \<^verbatim>\<open>NaN\<close>, which \<^const>\<open>sqrt\<close> does not represent.
\<close>

definition enrichStep :: "EnrichState \<Rightarrow> Candle \<Rightarrow> EnrichState \<times> Candle" where
  "enrichStep st c =
    (let aggressiveBuy = takerBuyVolume c;
         aggressiveSell = volume c - takerBuyVolume c;
         dlt = aggressiveBuy - aggressiveSell;
         date = getUTCDate (timestamp c);
         prevDate = getUTCDate (lastTime st);
         st1 = (if lastTime st \<noteq> 0 \<and> date \<noteq> prevDate
                then st\<lparr>cumDelta := 0, cumVol := 0, cumPV := 0, sumSquaredDev := 0\<rparr>
                else st);
         st2 = st1\<lparr>cumDelta := cumDelta st1 + dlt,
                    cumVol := cumVol st1 + volume c,
                    cumPV := cumPV st1 + close c * volume c\<rparr>;
         typicalPrice = (high c + low c + close c) / 3;
         vw = (if cumVol st2 > 0 then cumPV st2 / cumVol st2 else close c);
         st3 = (if cumVol st2 > 0
                then st2\<lparr>sumSquaredDev := sumSquaredDev st2
                              + ((typicalPrice - vw) * (typicalPrice - vw)) * volume c\<rparr>
                else st2);
         variance = (if cumVol st3 > 0 then sumSquaredDev st3 / cumVol st3 else 0);
         stdDev = sqrt variance
     in (st3\<lparr>lastTime := timestamp c\<rparr>,
         c\<lparr>delta := Some dlt, cvd := Some (cumDelta st3), vwap := Some vw,
           vwapStd := Some stdDev, divergence := None\<rparr>))"

fun enrichFrom :: "EnrichState \<Rightarrow> Candle list \<Rightarrow> Candle list" where
  "enrichFrom st [] = []"
| "enrichFrom st (c # cs) = (case enrichStep st c of (st', c') \<Rightarrow> c' # enrichFrom st' cs)"

text \<open>
  The divergence pass. \<^verbatim>\<open>enriched[j-1]?.high\<close> is \<^verbatim>\<open>undefined\<close> for \<open>j = 0\<close>, and a
  comparison with \<^verbatim>\<open>undefined\<close> is false. The pass only writes \<^verbatim>\<open>divergence\<close> and only
  reads \<^verbatim>\<open>high\<close>, \<^verbatim>\<open>low\<close> and \<^verbatim>\<open>delta\<close>, so each candle is marked from the result of
  the first pass.
\<close>

definition higherThan :: "Candle list \<Rightarrow> int \<Rightarrow> int \<Rightarrow> bool" where
  "higherThan e j k =
     (case (elemAt e j, elemAt e k) of (Some a, Some b) \<Rightarrow> high a > high b | _ \<Rightarrow> False)"

definition lowerThan :: "Candle list \<Rightarrow> int \<Rightarrow> int \<Rightarrow> bool" where
  "lowerThan e j k =
     (case (elemAt e j, elemAt e k) of (Some a, Some b) \<Rightarrow> low a < low b | _ \<Rightarrow> False)"

text \<open>\<^verbatim>\<open>for (let j = i - 2; j >= Math.max(0, i - 15); j--)\<close> with its \<^verbatim>\<open>break\<close>.\<close>

definition prevPivot :: "(int \<Rightarrow> bool) \<Rightarrow> int \<Rightarrow> int option" where
  "prevPivot isPivot i = List.find isPivot (rev [max 0 (i - 15) .. i - 2])"

definition markDivergence :: "Candle list \<Rightarrow> int \<Rightarrow> Candle \<Rightarrow> Candle" where
  "markDivergence e i cur =
    (let isPriceHigh = (higherThan e i (i - 1) \<and> higherThan e i (i + 1));
         c1 = (if isPriceHigh
               then (case prevPivot (\<lambda>j. higherThan e j (j - 1) \<and> higherThan e j (j + 1)) i of
                       None \<Rightarrow> cur
                     | Some p \<Rightarrow>
                         (case elemAt e p of
                            None \<Rightarrow> cur
                          | Some prev \<Rightarrow>
                              if high cur > high prev \<and> orZero (delta cur) < orZero (delta prev)
                              then cur\<lparr>divergence := Some bearish\<rparr> else cur))
               else cur);
         isPriceLow = (lowerThan e i (i - 1) \<and> lowerThan e i (i + 1))
     in if isPriceLow
        then (case prevPivot (\<lambda>j. lowerThan e j (j - 1) \<and> lowerThan e j (j + 1)) i of
                None \<Rightarrow> c1
              | Some p \<Rightarrow>
                  (case elemAt e p of
                     None \<Rightarrow> c1
                   | Some prev \<Rightarrow>
                       if low c1 < low prev \<and> orZero (delta c1) > orZero (delta prev)
                       then c1\<lparr>divergence := Some bullish\<rparr> else c1))
        else c1)"

definition LOOKBACK :: int where
  "LOOKBACK = 3"

definition divergencePass :: "Candle list \<Rightarrow> Candle list" where
  "divergencePass e =
     map (\<lambda>(i, c). if LOOKBACK \<le> int i \<and> int i < int (length e) - 1
                     then markDivergence e (int i) c else c)
         (enumerate 0 e)"

definition enrichCandlesWithContext :: "Candle list \<Rightarrow> Candle list" where
  "enrichCandlesWithContext candles =
     divergencePass
       (enrichFrom \<lparr>cumDelta = 0, cumVol = 0, cumPV = 0, sumSquaredDev = 0, lastTime = 0\<rparr>
          candles)"

section \<open>Smart zone aggregation (\<^verbatim>\<open>src/utils/smartGrouping.ts\<close>)\<close>

datatype NoiseFilterLevel = LOW | MEDIUM | HIGH | AUTO

record ZoneRaw =
  zrPrice :: real
  zrAdded :: real
  zrRemoved :: real
  zrExecuted :: real
  zrNet :: real
  lastQty :: real
  firstSeen :: int
  zrLastUpdate :: int
  zrFailedPushes :: "real option"

text \<open>The zone id is the string \<^verbatim>\<open>`z-${bucketKey}`\<close>; the bucket key itself is kept.\<close>

record SmartZone =
  zoneId :: real
  priceStart :: real
  priceEnd :: real
  added :: real
  removed :: real
  executed :: real
  net :: real
  density :: int
  avgLifetime :: int
  lastUpdate :: int
  noiseScore :: real
  impactScore :: real
  isSignificant :: bool
  zoneVolatility :: real

record SmartGroupingEngine =
  recentPrices :: "real list"
  volatility :: real

definition newSmartGroupingEngine :: SmartGroupingEngine where
  "newSmartGroupingEngine = \<lparr>recentPrices = [], volatility = 0\<rparr>"

definition updateVolatility :: "real \<Rightarrow> SmartGroupingEngine \<Rightarrow> SmartGroupingEngine" where
  "updateVolatility currentPrice eng =
    (let pushed = recentPrices eng @ [currentPrice];
         prices = (if length pushed > 20 then tl pushed else pushed)
     in if length prices < 5 then \<lparr>recentPrices = prices, volatility = 0\<rparr>
        else
         (let mean = foldl (+) 0 prices / real (length prices);
              variance = foldl (\<lambda>a b. a + (b - mean)\<^sup>2) 0 prices / real (length prices)
          in \<lparr>recentPrices = prices, volatility = sqrt variance\<rparr>))"

definition getAdaptiveGroupSize :: "SmartGroupingEngine \<Rightarrow> real \<Rightarrow> real" where
  "getAdaptiveGroupSize eng baseGroup =
    (if volatility eng = 0 then baseGroup
     else if volatility eng > 50 then max baseGroup 100
     else if volatility eng > 20 then max baseGroup 50
     else if volatility eng > 5 then max baseGroup 10
     else baseGroup)"

text \<open>Step 1 of \<^verbatim>\<open>aggregateZones\<close>: the body of \<^verbatim>\<open>rawMap.forEach\<close>.\<close>

definition addRaw ::
  "SmartGroupingEngine \<Rightarrow> int \<Rightarrow> real \<Rightarrow> int \<Rightarrow> (real \<times> SmartZone) list \<Rightarrow> ZoneRaw
    \<Rightarrow> (real \<times> SmartZone) list" where
  "addRaw eng now groupSize validStart zones raw =
    (if zrLastUpdate raw < validStart then zones
     else
      (let bucketKey = (if groupSize = 0 then zrPrice raw
                        else real_of_int \<lfloor>zrPrice raw / groupSize\<rfloor> * groupSize);
           zone = (case map_of zones bucketKey of
                     Some z \<Rightarrow> z
                   | None \<Rightarrow>
                       \<lparr>zoneId = bucketKey, priceStart = bucketKey,
                        priceEnd = (if groupSize = 0 then bucketKey else bucketKey + groupSize),
                        added = 0, removed = 0, executed = 0, net = 0, density = 0,
                        avgLifetime = 0, lastUpdate = 0, noiseScore = 0, impactScore = 0,
                        isSignificant = False, zoneVolatility = volatility eng\<rparr>);
           rawLifetime = now - firstSeen raw
       in AList.update bucketKey
            (zone\<lparr>added := added zone + zrAdded raw,
                  removed := removed zone + zrRemoved raw,
                  executed := executed zone + zrExecuted raw,
                  net := net zone + zrNet raw,
                  density := density zone + 1,
                  lastUpdate := max (lastUpdate zone) (zrLastUpdate raw),
                  avgLifetime := max (avgLifetime zone) rawLifetime\<rparr>)
            zones))"

definition calculateDynamicVolumeThreshold :: "SmartZone list \<Rightarrow> real" where
  "calculateDynamicVolumeThreshold zones =
    (if length zones = 0 then 1000
     else
      (let volumes = sort (map (\<lambda>z. added z + removed z + executed z) zones);
           p80 = \<lfloor>real (length volumes) * 0.8\<rfloor>
       in (case elemAt volumes p80 of
             None \<Rightarrow> 1000
           | Some v \<Rightarrow> if v = 0 then 1000 else v)))"

text \<open>The noise score of one zone, parts A to D of the \<^verbatim>\<open>zones.forEach\<close> callback.\<close>

definition scoreZone :: "real \<Rightarrow> real \<Rightarrow> real \<Rightarrow> SmartZone \<Rightarrow> SmartZone" where
  "scoreZone activeVolThreshold groupSize lastPrice zone =
    (let totalVol = added zone + removed zone + executed zone;
         n0 = (50 :: real);
         n1 = (if totalVol > activeVolThreshold * 2 then n0 - 30
               else if totalVol < activeVolThreshold * 0.2 then n0 + 30 else n0);
         n2 = (if avgLifetime zone < 5000 then n1 + 40 else n1);
         n3 = (if avgLifetime zone > 60000 then n2 - 20 else n2);
         distToPrice = \<bar>lastPrice - priceStart zone\<bar>;
         inZone = (distToPrice < groupSize);
         deltaRatio = \<bar>net zone\<bar> / (if totalVol = 0 then 1 else totalVol)
     in if totalVol > activeVolThreshold \<and> inZone
        then zone\<lparr>impactScore := 100, noiseScore := max 0 (min 100 (n3 - 30))\<rparr>
        else if totalVol > activeVolThreshold \<and> \<not> inZone \<and> executed zone > 0
        then zone\<lparr>noiseScore := max 0 (min 100 (n3 - 20))\<rparr>
        else if totalVol < activeVolThreshold \<and> \<not> inZone
        then zone\<lparr>noiseScore := max 0 (min 100 (n3 + 10))\<rparr>
        else zone\<lparr>noiseScore := max 0 (min 100 n3)\<rparr>)"

text \<open>Part E: the threshold of the user setting.\<close>

definition noiseThreshold :: "SmartGroupingEngine \<Rightarrow> NoiseFilterLevel \<Rightarrow> real" where
  "noiseThreshold eng noiseLevel =
    (case noiseLevel of
       LOW \<Rightarrow> 80
     | MEDIUM \<Rightarrow> 60
     | HIGH \<Rightarrow> 40
     | AUTO \<Rightarrow> if volatility eng > 20 then 30 else 60)"

text \<open>The \<^verbatim>\<open>zones.forEach\<close> callback, with the \<^verbatim>\<open>processed\<close> array it pushes to.\<close>

definition filterZone ::
  "SmartGroupingEngine \<Rightarrow> NoiseFilterLevel \<Rightarrow> real \<Rightarrow> real \<Rightarrow> real \<Rightarrow> SmartZone list
    \<Rightarrow> SmartZone \<Rightarrow> SmartZone list" where
  "filterZone eng noiseLevel activeVolThreshold groupSize lastPrice processed zone =
    (let scored = scoreZone activeVolThreshold groupSize lastPrice zone
     in if noiseScore scored < noiseThreshold eng noiseLevel
        then processed @ [scored\<lparr>isSignificant := True\<rparr>]
        else processed)"

text \<open>
  \<^verbatim>\<open>aggregateZones\<close>, with the value of \<^verbatim>\<open>Date.now()\<close> as the argument \<open>now\<close>. The raw
  map is read in insertion order; the result is sorted by descending \<^verbatim>\<open>priceStart\<close> with a
  stable sort.
\<close>

definition aggregateZones ::
  "SmartGroupingEngine \<Rightarrow> int \<Rightarrow> (real \<times> ZoneRaw) list \<Rightarrow> real \<Rightarrow> int \<Rightarrow> NoiseFilterLevel
    \<Rightarrow> real \<Rightarrow> SmartZone list" where
  "aggregateZones eng now rawMap groupSize timeWindow noiseLevel lastPrice =
    (let validStart = now - timeWindow;
         zones = foldl (addRaw eng now groupSize validStart) [] (map snd rawMap);
         activeVolThreshold = calculateDynamicVolumeThreshold (map snd zones);
         processed = foldl (filterZone eng noiseLevel activeVolThreshold groupSize lastPrice) []
                       (map snd zones)
     in sort_key (\<lambda>z. - priceStart z) processed)"

section \<open>Properties\<close>

subsection \<open>Association lists\<close>

lemma set_update_subset:
  "(k, v) \<in> set (AList.update k' v' al) \<Longrightarrow> (k, v) \<in> set al \<or> (k, v) = (k', v')"
  by (induction al) (auto split: if_splits)

subsection \<open>Auction context\<close>

text \<open>
  C9. With fewer than five recent candles \<open>calculateAuctionContext\<close> returns the neutral
  default, whatever the last price, the profile and the VWAP are: mode \<open>BALANCED\<close>,
  confidence 0, scenario "Gathering data...", bias neutral.
\<close>

theorem calculateAuctionContext_insufficient_data:
  "length recentCandles < 5 \<Longrightarrow>
   calculateAuctionContext lastPrice profile vwapNow recentCandles =
     \<lparr>mode = BALANCED, confidence = 0, scenario = ''Gathering data...'', bias = neutral\<rparr>"
  by (simp add: calculateAuctionContext_def)

theorem calculateAuctionContext_insufficient_data_witness:
  "length [\<lparr>timestamp = 0, openPrice = 100, high = 103, low = 99, close = 102, volume = 10,
             takerBuyVolume = 6, delta = None, cvd = None, vwap = None, vwapStd = None,
             divergence = None\<rparr>] < 5
   \<and> calculateAuctionContext 110
        \<lparr>levels = [], poc = 100, vah = 105, val = 95, totalVolume = 10,
         sessionHigh = 103, sessionLow = 99\<rparr> 101
        [\<lparr>timestamp = 0, openPrice = 100, high = 103, low = 99, close = 102, volume = 10,
          takerBuyVolume = 6, delta = None, cvd = None, vwap = None, vwapStd = None,
          divergence = None\<rparr>]
     = \<lparr>mode = BALANCED, confidence = 0, scenario = ''Gathering data...'', bias = neutral\<rparr>"
  using calculateAuctionContext_insufficient_data
    [of "[\<lparr>timestamp = 0, openPrice = 100, high = 103, low = 99, close = 102, volume = 10,
             takerBuyVolume = 6, delta = None, cvd = None, vwap = None, vwapStd = None,
             divergence = None\<rparr>]" 110
        "\<lparr>levels = [], poc = 100, vah = 105, val = 95, totalVolume = 10,
         sessionHigh = 103, sessionLow = 99\<rparr>" 101]
  by simp

subsection \<open>Volume profile\<close>

lemma findIndex_cases:
  "(findIndex P xs = -1 \<and> (\<forall>x\<in>set xs. \<not> P x))
   \<or> (0 \<le> findIndex P xs \<and> findIndex P xs < int (length xs) \<and> P (xs ! nat (findIndex P xs)))"
proof (induction xs)
  case Nil
  then show ?case by simp
next
  case (Cons x xs)
  show ?case
  proof (cases "P x")
    case True
    then show ?thesis by simp
  next
    case False
    from Cons.IH show ?thesis
    proof
      assume "findIndex P xs = -1 \<and> (\<forall>x\<in>set xs. \<not> P x)"
      with False show ?thesis by simp
    next
      assume h: "0 \<le> findIndex P xs \<and> findIndex P xs < int (length xs)
                 \<and> P (xs ! nat (findIndex P xs))"
      then have "nat (findIndex P xs + 1) = Suc (nat (findIndex P xs))" by arith
      with h False show ?thesis by (simp add: Let_def)
    qed
  qed
qed

lemma foldl_pocStep_cases:
  "(foldl pocStep pm xs = pm \<and> (\<forall>l\<in>set xs. vol l \<le> snd pm))
   \<or> (\<exists>l\<in>set xs. foldl pocStep pm xs = (price l, vol l))"
proof (induction xs arbitrary: pm)
  case Nil
  then show ?case by simp
next
  case (Cons x xs)
  show ?case
  proof (cases "vol x > snd pm")
    case True
    then have step: "pocStep pm x = (price x, vol x)" by (simp add: pocStep_def)
    from Cons.IH [of "(price x, vol x)"] show ?thesis
      by (auto simp: step)
  next
    case False
    then have step: "pocStep pm x = pm" by (simp add: pocStep_def)
    from Cons.IH [of pm] False show ?thesis
      by (auto simp: step)
  qed
qed

lemma expandStep_throws_without_positive_volume:
  assumes "\<forall>l\<in>set lvls. vol l \<le> 0" and "lowerIndex s \<le> 0"
  shows "expandStep lvls s = Inl TypeError"
proof -
  have low: "volAt lvls (lowerIndex s - 1) = Inl TypeError"
    using assms(2) by (simp add: volAt_def elemAt_def)
  have up: "volAt lvls i = Inl TypeError \<or> (\<exists>v. volAt lvls i = Inr v \<and> v \<le> 0)" for i
    using assms(1) by (auto simp: volAt_def elemAt_def)
  show ?thesis
    using assms(2) low up [of "upperIndex s + 1"]
    by (auto simp: expandStep_def split: sum.splits)
qed

lemma expand_unchanged_without_positive_volume:
  assumes "\<forall>l\<in>set lvls. vol l \<le> 0" and "lowerIndex s \<le> 0"
    and "expand lvls targetVolume s = Inr s'"
  shows "s' = s"
  using assms(3) expandStep_throws_without_positive_volume [OF assms(1,2)]
  by (subst (asm) expand.simps) (simp split: if_splits)

lemma expandStep_bounds:
  assumes "expandStep lvls s = Inr s'"
    and "0 \<le> lowerIndex s" "lowerIndex s \<le> p" "p \<le> upperIndex s"
    and "upperIndex s < int (length lvls)"
  shows "0 \<le> lowerIndex s' \<and> lowerIndex s' \<le> p \<and> p \<le> upperIndex s'
         \<and> upperIndex s' < int (length lvls)"
  using assms
  by (auto simp: expandStep_def volAt_def elemAt_def split: if_splits sum.splits option.splits)

lemma expand_bounds:
  "expand lvls targetVolume s = Inr s' \<Longrightarrow>
   0 \<le> lowerIndex s \<Longrightarrow> lowerIndex s \<le> p \<Longrightarrow> p \<le> upperIndex s \<Longrightarrow>
   upperIndex s < int (length lvls) \<Longrightarrow>
   0 \<le> lowerIndex s' \<and> lowerIndex s' \<le> p \<and> p \<le> upperIndex s'
     \<and> upperIndex s' < int (length lvls)"
proof (induction lvls targetVolume s rule: expand.induct)
  case (1 lvls targetVolume s)
  show ?case
  proof (cases "currentVolume s < targetVolume
        \<and> (upperIndex s < int (length lvls) - 1 \<or> lowerIndex s > 0)")
    case False
    with "1.prems" show ?thesis by (subst (asm) expand.simps) auto
  next
    case True
    from "1.prems"(1) True obtain s1 where
      s1: "expandStep lvls s = Inr s1"
      by (subst (asm) expand.simps) (auto split: sum.splits)
    have b1: "0 \<le> lowerIndex s1 \<and> lowerIndex s1 \<le> p \<and> p \<le> upperIndex s1
         \<and> upperIndex s1 < int (length lvls)"
      using expandStep_bounds [OF s1 "1.prems"(2-5)] .
    show ?thesis
    proof (cases "upperIndex s1 = int (length lvls) - 1 \<and> lowerIndex s1 = 0")
      case brk: True
      with "1.prems"(1) True s1 have "s' = s1"
        by (subst (asm) expand.simps) simp
      with b1 show ?thesis by simp
    next
      case cont: False
      with "1.prems"(1) True s1 have "expand lvls targetVolume s1 = Inr s'"
        by (subst (asm) expand.simps) simp
      from "1.IH" [OF True s1 cont this] b1 show ?thesis by simp
    qed
  qed
qed

lemma sorted_nth_price:
  "sorted (map price lvls) \<Longrightarrow> i \<le> j \<Longrightarrow> j < length lvls \<Longrightarrow>
   price (lvls ! i) \<le> price (lvls ! j)"
  using sorted_nth_mono [of "map price lvls" i j] by simp

lemma calculateProfile_Inr:
  assumes "calculateProfile candles tickSize = Inr m" and "candles \<noteq> []"
  shows "\<exists>s.
    expand (buildLevels candles tickSize) (foldl (+) 0 (map volume candles) * 0.7)
       \<lparr>currentVolume = snd (findPoc (buildLevels candles tickSize)),
        upperIndex = findIndex (\<lambda>l. price l = fst (findPoc (buildLevels candles tickSize)))
                       (buildLevels candles tickSize),
        lowerIndex = findIndex (\<lambda>l. price l = fst (findPoc (buildLevels candles tickSize)))
                       (buildLevels candles tickSize)\<rparr> = Inr s
    \<and> m = \<lparr>levels = buildLevels candles tickSize,
              poc = fst (findPoc (buildLevels candles tickSize)),
              vah = priceOr (buildLevels candles tickSize) (upperIndex s)
                      (fst (findPoc (buildLevels candles tickSize))),
              val = priceOr (buildLevels candles tickSize) (lowerIndex s)
                      (fst (findPoc (buildLevels candles tickSize))),
              totalVolume = foldl (+) 0 (map volume candles),
              sessionHigh = maxOf (map high candles),
              sessionLow = minOf (map low candles)\<rparr>"
  using assms unfolding calculateProfile_def
  by (simp add: Let_def split_beta split: sum.splits)

text \<open>
  C2. For every non-empty candle array and every positive tick size, the metrics that
  \<open>calculateProfile\<close> returns satisfy \<open>val \<le> poc \<le> vah\<close>.
\<close>

theorem calculateProfile_val_poc_vah:
  assumes ret: "calculateProfile candles tickSize = Inr m"
    and ne: "candles \<noteq> []" and "0 < tickSize"
  shows "val m \<le> poc m \<and> poc m \<le> vah m"
proof -
  define lvls where "lvls = buildLevels candles tickSize"
  define pocPrice where "pocPrice = fst (findPoc lvls)"
  define pocIndex where "pocIndex = findIndex (\<lambda>l. price l = pocPrice) lvls"
  define s0 where "s0 = \<lparr>currentVolume = snd (findPoc lvls), upperIndex = pocIndex,
                          lowerIndex = pocIndex\<rparr>"
  from calculateProfile_Inr [OF ret ne] obtain s where
    run: "expand lvls (foldl (+) 0 (map volume candles) * 0.7) s0 = Inr s"
    and m0: "m = \<lparr>levels = lvls, poc = pocPrice,
                 vah = priceOr lvls (upperIndex s) pocPrice,
                 val = priceOr lvls (lowerIndex s) pocPrice,
                 totalVolume = foldl (+) 0 (map volume candles),
                 sessionHigh = maxOf (map high candles),
                 sessionLow = minOf (map low candles)\<rparr>"
    unfolding lvls_def pocPrice_def pocIndex_def s0_def by blast
  have m: "poc m = pocPrice" "vah m = priceOr lvls (upperIndex s) pocPrice"
       "val m = priceOr lvls (lowerIndex s) pocPrice"
    by (simp_all add: m0)
  have srt: "sorted (map price lvls)"
    by (simp add: lvls_def buildLevels_def)
  from findIndex_cases [of "\<lambda>l. price l = pocPrice" lvls]
  show ?thesis
  proof
    assume none: "findIndex (\<lambda>l. price l = pocPrice) lvls = -1
                  \<and> (\<forall>x\<in>set lvls. \<not> price x = pocPrice)"
    then have idx: "pocIndex = -1" by (simp add: pocIndex_def)
    have "findPoc lvls = (0, -1) \<and> (\<forall>l\<in>set lvls. vol l \<le> -1)"
      using foldl_pocStep_cases [of "(0, -1)" lvls] none
      by (auto simp: findPoc_def pocPrice_def)
    then have "\<forall>l\<in>set lvls. vol l \<le> 0" by auto
    from expand_unchanged_without_positive_volume [OF this _ run] idx
    have "s = s0" by (simp add: s0_def)
    with idx m show ?thesis
      by (simp add: s0_def priceOr_def elemAt_def)
  next
    assume found: "0 \<le> findIndex (\<lambda>l. price l = pocPrice) lvls
       \<and> findIndex (\<lambda>l. price l = pocPrice) lvls < int (length lvls)
       \<and> price (lvls ! nat (findIndex (\<lambda>l. price l = pocPrice) lvls)) = pocPrice"
    then have idx: "0 \<le> pocIndex" "pocIndex < int (length lvls)"
      and atp: "price (lvls ! nat pocIndex) = pocPrice"
      by (simp_all add: pocIndex_def)
    from expand_bounds [OF run, of pocIndex] idx
    have b: "0 \<le> lowerIndex s" "lowerIndex s \<le> pocIndex" "pocIndex \<le> upperIndex s"
      "upperIndex s < int (length lvls)"
      by (simp_all add: s0_def)
    have lo: "price (lvls ! nat (lowerIndex s)) \<le> pocPrice"
      using sorted_nth_price [OF srt, of "nat (lowerIndex s)" "nat pocIndex"] b idx atp
      by simp
    have hi: "pocPrice \<le> price (lvls ! nat (upperIndex s))"
      using sorted_nth_price [OF srt, of "nat pocIndex" "nat (upperIndex s)"] b idx atp
      by simp
    from lo hi b m show ?thesis
      by (simp add: priceOr_def elemAt_def)
  qed
qed

theorem calculateProfile_val_poc_vah_witness:
  "calculateProfile
     [\<lparr>timestamp = 0, openPrice = 100, high = 102, low = 100, close = 101, volume = 10,
       takerBuyVolume = 6, delta = None, cvd = None, vwap = None, vwapStd = None,
       divergence = None\<rparr>] 1
   = Inr \<lparr>levels = [\<lparr>price = 100, vol = 10 / 3\<rparr>, \<lparr>price = 101, vol = 10 / 3\<rparr>,
                     \<lparr>price = 102, vol = 10 / 3\<rparr>],
          poc = 100, vah = 102, val = 100, totalVolume = 10,
          sessionHigh = 102, sessionLow = 100\<rparr>
   \<and> [\<lparr>timestamp = 0, openPrice = 100, high = 102, low = 100, close = 101, volume = 10,
       takerBuyVolume = 6, delta = None, cvd = None, vwap = None, vwapStd = None,
       divergence = None\<rparr>] \<noteq> []
   \<and> (0::real) < 1
   \<and> (100::real) \<le> 100 \<and> (100::real) \<le> 102"
proof -
  have ev: "calculateProfile
     [\<lparr>timestamp = 0, openPrice = 100, high = 102, low = 100, close = 101, volume = 10,
       takerBuyVolume = 6, delta = None, cvd = None, vwap = None, vwapStd = None,
       divergence = None\<rparr>] 1
   = Inr \<lparr>levels = [\<lparr>price = 100, vol = 10 / 3\<rparr>, \<lparr>price = 101, vol = 10 / 3\<rparr>,
                     \<lparr>price = 102, vol = 10 / 3\<rparr>],
          poc = 100, vah = 102, val = 100, totalVolume = 10,
          sessionHigh = 102, sessionLow = 100\<rparr>"
    by code_simp
  from calculateProfile_val_poc_vah [OF ev] ev show ?thesis by simp
qed

text \<open>
  C1. The claim is that the levels priced inside \<open>[val, vah]\<close> always carry at least
  70% of the total volume. The bounds are read with \<^verbatim>\<open>levels[i]?.price || poc\<close>, and a
  level in tick 0 has price 0, which is falsy: the bound falls back to the point of control.
  With tick size 10, a candle trading at 8 to 9 with volume 4 and a candle trading at 10 to
  11 with volume 5, the expansion reaches the level at price 0, but the returned value area
  is \<open>[10, 10]\<close> and holds volume 5 of 9, less than 70%.
\<close>

theorem calculateProfile_value_area_zero_price:
  "calculateProfile
     [\<lparr>timestamp = 0, openPrice = 8, high = 9, low = 8, close = 9, volume = 4,
       takerBuyVolume = 2, delta = None, cvd = None, vwap = None, vwapStd = None,
       divergence = None\<rparr>,
      \<lparr>timestamp = 60000, openPrice = 10, high = 11, low = 10, close = 11, volume = 5,
       takerBuyVolume = 3, delta = None, cvd = None, vwap = None, vwapStd = None,
       divergence = None\<rparr>] 10
   = Inr \<lparr>levels = [\<lparr>price = 0, vol = 4\<rparr>, \<lparr>price = 10, vol = 5\<rparr>], poc = 10,
          vah = 10, val = 10, totalVolume = 9, sessionHigh = 11, sessionLow = 8\<rparr>
   \<and> valueAreaVolume
        \<lparr>levels = [\<lparr>price = 0, vol = 4\<rparr>, \<lparr>price = 10, vol = 5\<rparr>], poc = 10,
         vah = 10, val = 10, totalVolume = 9, sessionHigh = 11, sessionLow = 8\<rparr> = 5
   \<and> (5::real) < 0.70 * 9"
  by code_simp

text \<open>
  A level of volume 0 next to a point of control at index 0 makes the loop step below
  index 0: \<^verbatim>\<open>levels[-1].volume\<close> throws and no metrics are returned.
\<close>

lemma calculateProfile_throws_on_zero_volume_level:
  "calculateProfile
     [\<lparr>timestamp = 0, openPrice = 100, high = 100, low = 100, close = 100, volume = 5,
       takerBuyVolume = 2, delta = None, cvd = None, vwap = None, vwapStd = None,
       divergence = None\<rparr>,
      \<lparr>timestamp = 60000, openPrice = 101, high = 101, low = 101, close = 101, volume = 0,
       takerBuyVolume = 0, delta = None, cvd = None, vwap = None, vwapStd = None,
       divergence = None\<rparr>,
      \<lparr>timestamp = 120000, openPrice = 102, high = 102, low = 102, close = 102, volume = 5,
       takerBuyVolume = 3, delta = None, cvd = None, vwap = None, vwapStd = None,
       divergence = None\<rparr>] 1
   = Inl TypeError"
  by code_simp

lemma sum_addTick:
  "sum_list (map snd (addTick v t m)) = sum_list (map snd m) + v"
  unfolding addTick_def
  by (induction m) (auto simp: orZero_def)

lemma sum_fold_addTick:
  "sum_list (map snd (fold (addTick v) ts m)) = sum_list (map snd m) + v * real (length ts)"
  by (induction ts arbitrary: m) (simp_all add: sum_addTick algebra_simps)

lemma tick_order:
  assumes "0 < tickSize" and "low c \<le> high c"
  shows "\<lfloor>low c / tickSize\<rfloor> \<le> \<lfloor>high c / tickSize\<rfloor>"
  using assms by (intro floor_mono divide_right_mono) simp_all

lemma sum_addCandle:
  assumes "0 < tickSize" and "low c \<le> high c"
  shows "sum_list (map snd (addCandle tickSize m c)) = sum_list (map snd m) + volume c"
proof -
  let ?l = "\<lfloor>low c / tickSize\<rfloor>" and ?h = "\<lfloor>high c / tickSize\<rfloor>"
  have le: "?l \<le> ?h" using assms by (rule tick_order)
  then have len: "real (length [?l..?h]) = real_of_int (?h - ?l + 1)" by simp
  have nz: "real_of_int (?h - ?l + 1) \<noteq> 0" using le by auto
  show ?thesis
    unfolding addCandle_def Let_def sum_fold_addTick len using nz by simp
qed

lemma sum_foldl_addCandle:
  assumes "0 < tickSize" and "\<forall>c \<in> set cs. low c \<le> high c"
  shows "sum_list (map snd (foldl (addCandle tickSize) m cs))
         = sum_list (map snd m) + sum_list (map volume cs)"
  using assms(2)
  by (induction cs arbitrary: m) (simp_all add: sum_addCandle [OF assms(1)])

lemma foldl_plus_sum_list: "foldl (+) a xs = a + sum_list (xs :: real list)"
  by (induction xs arbitrary: a) simp_all

lemma sum_list_insort_key:
  "sum_list (map g (insort_key f x xs)) = (g x :: real) + sum_list (map g xs)"
  by (induction xs) simp_all

lemma sum_list_sort_key:
  "sum_list (map g (sort_key f xs)) = (sum_list (map g xs) :: real)"
  by (induction xs) (simp_all add: sum_list_insort_key)

lemma sum_buildLevels:
  assumes "0 < tickSize" and "\<forall>c \<in> set cs. low c \<le> high c"
  shows "sum_list (map vol (buildLevels cs tickSize)) = foldl (+) 0 (map volume cs)"
proof -
  let ?m = "foldl (addCandle tickSize) [] cs"
  let ?f = "\<lambda>(tickIndex, v). \<lparr>price = real_of_int tickIndex * tickSize, vol = v\<rparr>"
  have "sum_list (map vol (buildLevels cs tickSize)) = sum_list (map vol (map ?f ?m))"
    unfolding buildLevels_def by (rule sum_list_sort_key)
  also have "map vol (map ?f ?m) = map snd ?m"
    by (simp add: comp_def case_prod_beta)
  also have "sum_list (map snd ?m) = sum_list (map volume cs)"
    using sum_foldl_addCandle [OF assms, of "[]"] by simp
  finally show ?thesis by (simp add: foldl_plus_sum_list)
qed

lemma nonneg_addTick:
  assumes "\<forall>(k, x) \<in> set m. 0 \<le> x" and "0 \<le> v"
  shows "\<forall>(k, x) \<in> set (addTick v t m). 0 \<le> x"
proof -
  have "0 \<le> orZero (map_of m t)"
    using assms(1) by (auto simp: orZero_def split: option.splits dest!: map_of_SomeD)
  with assms show ?thesis
    unfolding addTick_def by (auto dest!: set_update_subset)
qed

lemma nonneg_fold_addTick:
  "\<forall>(k, x) \<in> set m. 0 \<le> x \<Longrightarrow> 0 \<le> v \<Longrightarrow>
   \<forall>(k, x) \<in> set (fold (addTick v) ts m). 0 \<le> x"
proof (induction ts arbitrary: m)
  case Nil
  then show ?case by simp
next
  case (Cons t ts)
  from Cons.IH [OF nonneg_addTick [OF Cons.prems] Cons.prems(2)] show ?case by simp
qed

lemma nonneg_addCandle:
  assumes "\<forall>(k, x) \<in> set m. 0 \<le> x" and "0 \<le> volume c"
  shows "\<forall>(k, x) \<in> set (addCandle tickSize m c). 0 \<le> x"
proof (cases "\<lfloor>low c / tickSize\<rfloor> \<le> \<lfloor>high c / tickSize\<rfloor>")
  case True
  then have "0 \<le> volume c / real_of_int (\<lfloor>high c / tickSize\<rfloor> - \<lfloor>low c / tickSize\<rfloor> + 1)"
    using assms(2) by (intro divide_nonneg_nonneg) simp_all
  from nonneg_fold_addTick [OF assms(1) this] show ?thesis
    by (simp add: addCandle_def Let_def)
next
  case False
  with assms(1) show ?thesis by (simp add: addCandle_def Let_def)
qed

lemma nonneg_foldl_addCandle:
  "\<forall>(k, x) \<in> set m. 0 \<le> x \<Longrightarrow> \<forall>c \<in> set cs. 0 \<le> volume c \<Longrightarrow>
   \<forall>(k, x) \<in> set (foldl (addCandle tickSize) m cs). 0 \<le> x"
proof (induction cs arbitrary: m)
  case Nil
  then show ?case by simp
next
  case (Cons c cs)
  from Cons.prems(2) have "0 \<le> volume c" by simp
  from Cons.IH [OF nonneg_addCandle [OF Cons.prems(1) this]] Cons.prems(2)
  show ?case by simp
qed

lemma nonneg_buildLevels:
  assumes "\<forall>c \<in> set cs. 0 \<le> volume c"
  shows "\<forall>l \<in> set (buildLevels cs tickSize). 0 \<le> vol l"
  using nonneg_foldl_addCandle [of "[]" cs tickSize] assms
  by (fastforce simp: buildLevels_def)

lemma distinct_addTick: "distinct (map fst m) \<Longrightarrow> distinct (map fst (addTick v t m))"
  by (simp add: addTick_def distinct_update)

lemma distinct_fold_addTick:
  "distinct (map fst m) \<Longrightarrow> distinct (map fst (fold (addTick v) ts m))"
  by (induction ts arbitrary: m) (simp_all add: distinct_addTick)

lemma distinct_foldl_addCandle:
  "distinct (map fst m) \<Longrightarrow> distinct (map fst (foldl (addCandle tickSize) m cs))"
  by (induction cs arbitrary: m) (simp_all add: addCandle_def Let_def distinct_fold_addTick)

lemma distinct_prices_buildLevels:
  assumes "0 < tickSize"
  shows "distinct (map price (buildLevels cs tickSize))"
proof -
  let ?m = "foldl (addCandle tickSize) [] cs"
  let ?f = "\<lambda>(tickIndex, v). \<lparr>price = real_of_int tickIndex * tickSize, vol = v\<rparr>"
  have keys: "distinct (map fst ?m)" by (rule distinct_foldl_addCandle) simp
  have eq: "map price (map ?f ?m) = map (\<lambda>t. real_of_int t * tickSize) (map fst ?m)"
    by (simp add: comp_def case_prod_beta)
  have "inj_on (\<lambda>t. real_of_int t * tickSize) (set (map fst ?m))"
    using assms by (auto simp: inj_on_def)
  with keys have "distinct (map price (map ?f ?m))"
    unfolding eq by (simp only: distinct_map)
  then have "distinct (map ?f ?m) \<and> inj_on price (set (map ?f ?m))"
    by (simp only: distinct_map)
  then show ?thesis
    unfolding buildLevels_def by (simp add: distinct_map)
qed

lemma strict_prices_buildLevels:
  assumes "0 < tickSize" and "i < j" and "j < length (buildLevels cs tickSize)"
  shows "price (buildLevels cs tickSize ! i) < price (buildLevels cs tickSize ! j)"
proof -
  let ?l = "buildLevels cs tickSize"
  have "sorted (map price ?l)" by (simp add: buildLevels_def)
  from sorted_nth_mono [OF this, of i j] assms(2,3)
  have le: "price (?l ! i) \<le> price (?l ! j)" by simp
  have "(map price ?l ! i = map price ?l ! j) = (i = j)"
    using assms(2,3)
    by (intro nth_eq_iff_index_eq distinct_prices_buildLevels [OF assms(1)]) simp_all
  with le assms(2,3) show ?thesis by simp
qed

lemma addTick_nonempty: "addTick v t m \<noteq> []"
  by (cases m) (simp_all add: addTick_def)

lemma fold_addTick_nonempty: "m \<noteq> [] \<or> ts \<noteq> [] \<Longrightarrow> fold (addTick v) ts m \<noteq> []"
  by (induction ts arbitrary: m) (auto simp: addTick_nonempty)

lemma foldl_addCandle_nonempty:
  "m \<noteq> [] \<Longrightarrow> foldl (addCandle tickSize) m cs \<noteq> []"
  by (induction cs arbitrary: m) (simp_all add: addCandle_def Let_def fold_addTick_nonempty)

lemma buildLevels_nonempty:
  assumes "0 < tickSize" and "cs \<noteq> []" and "\<forall>c \<in> set cs. low c \<le> high c"
  shows "buildLevels cs tickSize \<noteq> []"
proof -
  from assms(2) obtain c rest where cs: "cs = c # rest" by (cases cs) auto
  with assms(3) have "low c \<le> high c" by simp
  from tick_order [OF assms(1) this]
  have "[\<lfloor>low c / tickSize\<rfloor>..\<lfloor>high c / tickSize\<rfloor>] \<noteq> []" by simp
  then have "addCandle tickSize [] c \<noteq> []"
    by (simp add: addCandle_def Let_def fold_addTick_nonempty)
  from foldl_addCandle_nonempty [OF this, of tickSize rest]
  have "length (foldl (addCandle tickSize) [] cs) \<noteq> 0" by (simp add: cs)
  moreover have "length (buildLevels cs tickSize) = length (foldl (addCandle tickSize) [] cs)"
    by (simp add: buildLevels_def)
  ultimately show ?thesis by auto
qed

lemma expandStep_sum:
  assumes "expandStep lvls s = Inr s'"
    and "0 \<le> lowerIndex s" "lowerIndex s \<le> upperIndex s" "upperIndex s < int (length lvls)"
    and "currentVolume s = (\<Sum>i = nat (lowerIndex s)..nat (upperIndex s). vol (lvls ! i))"
  shows "0 \<le> lowerIndex s' \<and> lowerIndex s' \<le> upperIndex s'
         \<and> upperIndex s' < int (length lvls)
         \<and> currentVolume s' = (\<Sum>i = nat (lowerIndex s')..nat (upperIndex s'). vol (lvls ! i))"
proof -
  from assms(1) consider
    (up) "0 \<le> upperIndex s + 1" "upperIndex s + 1 < int (length lvls)"
      "s' = s\<lparr>upperIndex := upperIndex s + 1,
               currentVolume := currentVolume s + vol (lvls ! nat (upperIndex s + 1))\<rparr>"
  | (down) "0 \<le> lowerIndex s - 1" "lowerIndex s - 1 < int (length lvls)"
      "s' = s\<lparr>lowerIndex := lowerIndex s - 1,
               currentVolume := currentVolume s + vol (lvls ! nat (lowerIndex s - 1))\<rparr>"
    by (auto simp: expandStep_def volAt_def elemAt_def split: if_splits sum.splits)
  then show ?thesis
  proof cases
    case up
    have up0: "0 \<le> upperIndex s" using assms(2,3) by simp
    have n: "Suc (nat (upperIndex s)) = nat (upperIndex s + 1)"
      using up0 by (simp add: nat_add_distrib)
    have "nat (lowerIndex s) \<le> nat (upperIndex s)"
      using assms(3) by (rule nat_mono)
    then have "nat (lowerIndex s) \<le> Suc (nat (upperIndex s))" by simp
    then have "(\<Sum>i = nat (lowerIndex s)..Suc (nat (upperIndex s)). vol (lvls ! i))
        = vol (lvls ! Suc (nat (upperIndex s)))
          + (\<Sum>i = nat (lowerIndex s)..nat (upperIndex s). vol (lvls ! i))"
      by (rule sum.nat_ivl_Suc')
    then have s5: "(\<Sum>i = nat (lowerIndex s)..nat (upperIndex s + 1). vol (lvls ! i))
        = currentVolume s + vol (lvls ! nat (upperIndex s + 1))"
      unfolding n assms(5) [symmetric] by (simp only: add.commute)
    have f: "lowerIndex s' = lowerIndex s" "upperIndex s' = upperIndex s + 1"
      "currentVolume s' = currentVolume s + vol (lvls ! nat (upperIndex s + 1))"
      by (simp_all add: up(3))
    show ?thesis
      unfolding f s5 using assms(2,3) up(2) by simp
  next
    case down
    have n: "Suc (nat (lowerIndex s - 1)) = nat (lowerIndex s)"
      using down(1) nat_add_distrib [of "lowerIndex s - 1" 1] by simp
    have "lowerIndex s - 1 \<le> upperIndex s" using assms(3) by simp
    then have "nat (lowerIndex s - 1) \<le> nat (upperIndex s)" by (rule nat_mono)
    then have "(\<Sum>i = nat (lowerIndex s - 1)..nat (upperIndex s). vol (lvls ! i))
        = vol (lvls ! nat (lowerIndex s - 1))
          + (\<Sum>i = Suc (nat (lowerIndex s - 1))..nat (upperIndex s). vol (lvls ! i))"
      by (rule sum.atLeast_Suc_atMost)
    then have s5: "(\<Sum>i = nat (lowerIndex s - 1)..nat (upperIndex s). vol (lvls ! i))
        = currentVolume s + vol (lvls ! nat (lowerIndex s - 1))"
      unfolding n assms(5) [symmetric] by (simp only: add.commute)
    have f: "lowerIndex s' = lowerIndex s - 1" "upperIndex s' = upperIndex s"
      "currentVolume s' = currentVolume s + vol (lvls ! nat (lowerIndex s - 1))"
      by (simp_all add: down(3))
    show ?thesis
      unfolding f s5 using assms(3,4) down(1) by simp
  qed
qed

lemma expand_sum:
  "expand lvls targetVolume s = Inr s' \<Longrightarrow>
   0 \<le> lowerIndex s \<Longrightarrow> lowerIndex s \<le> upperIndex s \<Longrightarrow>
   upperIndex s < int (length lvls) \<Longrightarrow>
   currentVolume s = (\<Sum>i = nat (lowerIndex s)..nat (upperIndex s). vol (lvls ! i)) \<Longrightarrow>
   0 \<le> lowerIndex s' \<and> lowerIndex s' \<le> upperIndex s' \<and> upperIndex s' < int (length lvls)
   \<and> currentVolume s' = (\<Sum>i = nat (lowerIndex s')..nat (upperIndex s'). vol (lvls ! i))
   \<and> (targetVolume \<le> currentVolume s'
       \<or> (lowerIndex s' = 0 \<and> upperIndex s' = int (length lvls) - 1))"
proof (induction lvls targetVolume s rule: expand.induct)
  case (1 lvls targetVolume s)
  show ?case
  proof (cases "currentVolume s < targetVolume
        \<and> (upperIndex s < int (length lvls) - 1 \<or> lowerIndex s > 0)")
    case False
    with "1.prems"(1) have eq: "s' = s" by (subst (asm) expand.simps) auto
    from False "1.prems"(2,4)
    have "targetVolume \<le> currentVolume s
          \<or> (lowerIndex s = 0 \<and> upperIndex s = int (length lvls) - 1)"
      by auto
    with "1.prems"(2-5) show ?thesis unfolding eq by blast
  next
    case True
    from "1.prems"(1) True obtain s1 where
      s1: "expandStep lvls s = Inr s1"
      by (subst (asm) expand.simps) (auto split: sum.splits)
    note b1 = expandStep_sum [OF s1 "1.prems"(2-5)]
    show ?thesis
    proof (cases "upperIndex s1 = int (length lvls) - 1 \<and> lowerIndex s1 = 0")
      case brk: True
      with "1.prems"(1) True s1 have eq: "s' = s1"
        by (subst (asm) expand.simps) simp
      from b1 brk show ?thesis unfolding eq by blast
    next
      case cont: False
      with "1.prems"(1) True s1 have run: "expand lvls targetVolume s1 = Inr s'"
        by (subst (asm) expand.simps) simp
      from b1 have p: "0 \<le> lowerIndex s1" "lowerIndex s1 \<le> upperIndex s1"
        "upperIndex s1 < int (length lvls)"
        "currentVolume s1 = (\<Sum>i = nat (lowerIndex s1)..nat (upperIndex s1). vol (lvls ! i))"
        by simp_all
      from "1.IH" [OF True s1 cont run p] show ?thesis .
    qed
  qed
qed

lemma sum_list_filter_nth:
  "sum_list (map f (filter P xs)) = (\<Sum>i < length xs. if P (xs ! i) then f (xs ! i) else (0::real))"
proof (induction xs rule: rev_induct)
  case Nil
  then show ?case by simp
next
  case (snoc x xs)
  have "(\<Sum>i < length xs. if P ((xs @ [x]) ! i) then f ((xs @ [x]) ! i) else 0)
        = (\<Sum>i < length xs. if P (xs ! i) then f (xs ! i) else 0)"
    by (intro sum.cong) (simp_all add: nth_append)
  with snoc show ?case by simp
qed

lemma sum_restrict_interval:
  assumes "hi < (n::nat)"
  shows "(\<Sum>i < n. if lo \<le> i \<and> i \<le> hi then g i else (0::real)) = (\<Sum>i = lo..hi. g i)"
proof -
  have "sum g ({..<n} \<inter> {lo..hi}) = (\<Sum>i \<in> {..<n}. if i \<in> {lo..hi} then g i else 0)"
    by (rule sum.inter_restrict) (rule finite_lessThan)
  moreover have "{..<n} \<inter> {lo..hi} = {lo..hi}"
    using assms by auto
  ultimately show ?thesis by simp
qed

lemma price_order_buildLevels:
  assumes "0 < tickSize" and "i < length (buildLevels cs tickSize)"
    and "j < length (buildLevels cs tickSize)"
  shows "price (buildLevels cs tickSize ! i) \<le> price (buildLevels cs tickSize ! j) \<longleftrightarrow> i \<le> j"
proof (cases "i \<le> j")
  case True
  have "sorted (map price (buildLevels cs tickSize))" by (simp add: buildLevels_def)
  from sorted_nth_mono [OF this, of i j] True assms(3) show ?thesis by simp
next
  case False
  then have "j < i" by simp
  from strict_prices_buildLevels [OF assms(1) this assms(2)] False show ?thesis by simp
qed

text \<open>
  Where every candle has \<open>low \<le> high\<close> and a volume that is not negative, and no level has
  the price 0, the metrics that \<open>calculateProfile\<close> returns do hold at least 70% of the total
  volume inside \<open>[val, vah]\<close>: the loop stops when the accumulated volume reaches the target
  or when every level is included.
\<close>

lemma calculateProfile_value_area_bound:
  assumes ret: "calculateProfile cs tickSize = Inr m"
    and ne: "cs \<noteq> []" and ts: "0 < tickSize"
    and wf: "\<forall>c \<in> set cs. low c \<le> high c \<and> 0 \<le> volume c"
    and nz: "\<forall>l \<in> set (levels m). price l \<noteq> 0"
  shows "0.70 * totalVolume m \<le> valueAreaVolume m"
proof -
  define lvls where "lvls = buildLevels cs tickSize"
  define n where "n = length lvls"
  define pocPrice where "pocPrice = fst (findPoc lvls)"
  define pocIndex where "pocIndex = findIndex (\<lambda>l. price l = pocPrice) lvls"
  define total where "total = foldl (+) 0 (map volume cs)"
  define s0 where "s0 = \<lparr>currentVolume = snd (findPoc lvls), upperIndex = pocIndex,
                          lowerIndex = pocIndex\<rparr>"
  from calculateProfile_Inr [OF ret ne] obtain s where
    run: "expand lvls (total * 0.7) s0 = Inr s"
    and m0: "m = \<lparr>levels = lvls, poc = pocPrice,
                 vah = priceOr lvls (upperIndex s) pocPrice,
                 val = priceOr lvls (lowerIndex s) pocPrice,
                 totalVolume = total,
                 sessionHigh = maxOf (map high cs),
                 sessionLow = minOf (map low cs)\<rparr>"
    unfolding lvls_def pocPrice_def pocIndex_def s0_def total_def by blast
  have lows: "\<forall>c \<in> set cs. low c \<le> high c" and vols: "\<forall>c \<in> set cs. 0 \<le> volume c"
    using wf by auto
  have nonempty: "lvls \<noteq> []"
    unfolding lvls_def by (rule buildLevels_nonempty [OF ts ne lows])
  have nonneg: "\<forall>l \<in> set lvls. 0 \<le> vol l"
    unfolding lvls_def by (rule nonneg_buildLevels [OF vols])
  have sum_all: "sum_list (map vol lvls) = total"
    unfolding lvls_def total_def by (rule sum_buildLevels [OF ts lows])
  have total_nonneg: "0 \<le> total"
    unfolding sum_all [symmetric] using nonneg by (intro sum_list_nonneg) auto
  \<comment> \<open>the point of control is a level, found at its own index\<close>
  from nonempty obtain l0 where "l0 \<in> set lvls" by (cases lvls) auto
  with nonneg have "\<not> (\<forall>l \<in> set lvls. vol l \<le> snd (0::real, -1::real))" by force
  with foldl_pocStep_cases [of "(0, -1)" lvls] obtain l where
    l: "l \<in> set lvls" "findPoc lvls = (price l, vol l)"
    unfolding findPoc_def by blast
  then have pp: "pocPrice = price l" and mv: "snd (findPoc lvls) = vol l"
    by (simp_all add: pocPrice_def)
  from l(1) obtain j where j: "j < n" "lvls ! j = l"
    unfolding n_def by (auto simp: in_set_conv_nth)
  from findIndex_cases [of "\<lambda>x. price x = pocPrice" lvls] l(1) pp
  have found: "0 \<le> pocIndex" "pocIndex < int n" "price (lvls ! nat pocIndex) = pocPrice"
    unfolding pocIndex_def n_def by auto
  have "nat pocIndex \<le> j \<and> j \<le> nat pocIndex"
    using price_order_buildLevels [OF ts, of "nat pocIndex" cs j]
      price_order_buildLevels [OF ts, of j cs "nat pocIndex"] found j pp
    unfolding lvls_def [symmetric] n_def [symmetric] by simp
  then have "nat pocIndex = j" by simp
  then have at_poc: "vol (lvls ! nat pocIndex) = snd (findPoc lvls)"
    using j mv by simp
  \<comment> \<open>the loop accumulates the volume between the two indices\<close>
  have init: "currentVolume s0 = (\<Sum>i = nat (lowerIndex s0)..nat (upperIndex s0). vol (lvls ! i))"
    by (simp add: s0_def at_poc)
  have p0: "0 \<le> lowerIndex s0" "lowerIndex s0 \<le> upperIndex s0"
    "upperIndex s0 < int (length lvls)"
    using found by (simp_all add: s0_def n_def)
  from expand_sum [OF run p0 init]
  have b: "0 \<le> lowerIndex s" "lowerIndex s \<le> upperIndex s" "upperIndex s < int n"
    and cur: "currentVolume s = (\<Sum>i = nat (lowerIndex s)..nat (upperIndex s). vol (lvls ! i))"
    and stop: "total * 0.7 \<le> currentVolume s
               \<or> (lowerIndex s = 0 \<and> upperIndex s = int n - 1)"
    unfolding n_def by blast+
  define lo where "lo = nat (lowerIndex s)"
  define hi where "hi = nat (upperIndex s)"
  have lohi: "lo \<le> hi" "hi < n"
    using b by (simp_all add: lo_def hi_def)
  \<comment> \<open>the bounds are the prices at the two indices\<close>
  have "lvls ! lo \<in> set lvls" "lvls ! hi \<in> set lvls"
    using lohi by (simp_all add: n_def)
  with nz have "price (lvls ! lo) \<noteq> 0" "price (lvls ! hi) \<noteq> 0"
    by (simp_all add: m0)
  then have bounds: "val m = price (lvls ! lo)" "vah m = price (lvls ! hi)"
    using b by (simp_all add: m0 priceOr_def elemAt_def lo_def hi_def n_def)
  have "valueAreaVolume m
        = (\<Sum>i < n. if price (lvls ! lo) \<le> price (lvls ! i) \<and> price (lvls ! i) \<le> price (lvls ! hi)
                      then vol (lvls ! i) else 0)"
    unfolding valueAreaVolume_def bounds n_def by (simp add: m0 sum_list_filter_nth)
  also have "\<dots> = (\<Sum>i < n. if lo \<le> i \<and> i \<le> hi then vol (lvls ! i) else 0)"
  proof (rule sum.cong)
    fix i assume "i \<in> {..<n}"
    then have i: "i < n" by simp
    have "price (lvls ! lo) \<le> price (lvls ! i) \<longleftrightarrow> lo \<le> i"
      "price (lvls ! i) \<le> price (lvls ! hi) \<longleftrightarrow> i \<le> hi"
      using price_order_buildLevels [OF ts, of lo cs i]
        price_order_buildLevels [OF ts, of i cs hi] i lohi
      unfolding lvls_def [symmetric] n_def [symmetric] by simp_all
    then show "(if price (lvls ! lo) \<le> price (lvls ! i) \<and> price (lvls ! i) \<le> price (lvls ! hi)
                then vol (lvls ! i) else 0)
               = (if lo \<le> i \<and> i \<le> hi then vol (lvls ! i) else 0)"
      by simp
  qed simp
  also have "\<dots> = (\<Sum>i = lo..hi. vol (lvls ! i))"
    by (rule sum_restrict_interval [OF lohi(2)])
  finally have va: "valueAreaVolume m = currentVolume s"
    by (simp add: cur lo_def hi_def)
  have tv: "totalVolume m = total" by (simp add: m0)
  from stop show ?thesis
  proof
    assume "total * 0.7 \<le> currentVolume s"
    then show ?thesis by (simp add: va tv)
  next
    assume ex: "lowerIndex s = 0 \<and> upperIndex s = int n - 1"
    have "n \<noteq> 0" using nonempty by (simp add: n_def)
    with ex have "lo = 0" "hi = n - 1" by (simp_all add: lo_def hi_def)
    then have "{lo..hi} = {0..<n}" using \<open>n \<noteq> 0\<close> by auto
    then have "currentVolume s = (\<Sum>i = 0..<n. vol (lvls ! i))"
      by (simp add: cur lo_def [symmetric] hi_def [symmetric])
    also have "\<dots> = sum_list (map vol lvls)"
      unfolding n_def by (simp add: sum_list_sum_nth)
    finally have "currentVolume s = total" by (simp add: sum_all)
    with total_nonneg show ?thesis by (simp add: va tv)
  qed
qed

text \<open>
  C3, as claimed: when both neighbours exist and their volumes are equal, the upper side is
  taken. The loop tests \<^verbatim>\<open>nextUpper > nextLower\<close>, so a tie goes to the lower side: with
  levels of volume 2, 5, 2 the step from the middle level moves \<open>lowerIndex\<close>, and
  \<open>calculateProfile\<close> returns the value area \<open>[1, 2]\<close>, not \<open>[2, 3]\<close>.
\<close>

theorem expandStep_tie_takes_lower_counterexample:
  "vol ([\<lparr>price = 1, vol = 2\<rparr>, \<lparr>price = 2, vol = 5\<rparr>, \<lparr>price = 3, vol = 2\<rparr>] ! 2)
     = vol ([\<lparr>price = 1, vol = 2\<rparr>, \<lparr>price = 2, vol = 5\<rparr>, \<lparr>price = 3, vol = 2\<rparr>] ! 0)
   \<and> expandStep [\<lparr>price = 1, vol = 2\<rparr>, \<lparr>price = 2, vol = 5\<rparr>, \<lparr>price = 3, vol = 2\<rparr>]
        \<lparr>currentVolume = 5, upperIndex = 1, lowerIndex = 1\<rparr>
     = Inr \<lparr>currentVolume = 7, upperIndex = 1, lowerIndex = 0\<rparr>
   \<and> calculateProfile
        [\<lparr>timestamp = 0, openPrice = 1, high = 1, low = 1, close = 1, volume = 2,
          takerBuyVolume = 1, delta = None, cvd = None, vwap = None, vwapStd = None,
          divergence = None\<rparr>,
         \<lparr>timestamp = 60000, openPrice = 2, high = 2, low = 2, close = 2, volume = 5,
          takerBuyVolume = 1, delta = None, cvd = None, vwap = None, vwapStd = None,
          divergence = None\<rparr>,
         \<lparr>timestamp = 120000, openPrice = 3, high = 3, low = 3, close = 3, volume = 2,
          takerBuyVolume = 1, delta = None, cvd = None, vwap = None, vwapStd = None,
          divergence = None\<rparr>] 1
     = Inr \<lparr>levels = [\<lparr>price = 1, vol = 2\<rparr>, \<lparr>price = 2, vol = 5\<rparr>, \<lparr>price = 3, vol = 2\<rparr>],
            poc = 2, vah = 2, val = 1, totalVolume = 9, sessionHigh = 3, sessionLow = 1\<rparr>"
  by code_simp

text \<open>
  C3, amended. At every step of the value-area expansion where both an upper and a lower
  neighbour level exist, the expansion moves to the upper side only when the upper
  neighbour's volume is strictly greater than the lower neighbour's; otherwise, also when
  the two volumes are equal, it moves to the lower side.
\<close>

theorem expandStep_prefers_upper_only_when_strictly_greater:
  assumes "0 < lowerIndex s" and "lowerIndex s \<le> upperIndex s"
    and "upperIndex s < int (length lvls) - 1"
  shows "expandStep lvls s =
     Inr (if vol (lvls ! nat (upperIndex s + 1)) > vol (lvls ! nat (lowerIndex s - 1))
          then s\<lparr>upperIndex := upperIndex s + 1,
                 currentVolume := currentVolume s + vol (lvls ! nat (upperIndex s + 1))\<rparr>
          else s\<lparr>lowerIndex := lowerIndex s - 1,
                 currentVolume := currentVolume s + vol (lvls ! nat (lowerIndex s - 1))\<rparr>)"
  using assms by (simp add: expandStep_def volAt_def elemAt_def)

theorem expandStep_prefers_upper_only_when_strictly_greater_witness:
  "(0::int) < 1 \<and> (1::int) \<le> 1 \<and>
   (1::int) < int (length [\<lparr>price = 1, vol = 2\<rparr>, \<lparr>price = 2, vol = 5\<rparr>, \<lparr>price = 3, vol = 3\<rparr>]) - 1
   \<and> expandStep [\<lparr>price = 1, vol = 2\<rparr>, \<lparr>price = 2, vol = 5\<rparr>, \<lparr>price = 3, vol = 3\<rparr>]
        \<lparr>currentVolume = 5, upperIndex = 1, lowerIndex = 1\<rparr>
     = Inr \<lparr>currentVolume = 8, upperIndex = 2, lowerIndex = 1\<rparr>"
  using expandStep_prefers_upper_only_when_strictly_greater
    [of "\<lparr>currentVolume = 5, upperIndex = 1, lowerIndex = 1\<rparr>"
        "[\<lparr>price = 1, vol = 2\<rparr>, \<lparr>price = 2, vol = 5\<rparr>, \<lparr>price = 3, vol = 3\<rparr>]"]
  by simp

subsection \<open>Order-book level analytics\<close>

lemma length_enrichLevels:
  "length (enrichLevels side prevLevels tradeMap cumulative ls) = length ls"
  by (induction ls arbitrary: cumulative) simp_all

lemma enrichLevel_lvlPrice:
  "lvlPrice (enrichLevel side prevLevels tradeMap cumulative level) = lvlPrice level"
  by (simp add: enrichLevel_def Let_def)

lemma enrichLevel_isSpoof_new:
  "prevLevels (lvlPrice level) = None \<Longrightarrow>
   \<not> isSpoof (enrichLevel side prevLevels tradeMap cumulative level)"
  by (simp add: enrichLevel_def Let_def)

lemma enrichLevels_nth:
  "i < length ls \<Longrightarrow>
   \<exists>c. enrichLevels side prevLevels tradeMap cumulative ls ! i
        = enrichLevel side prevLevels tradeMap c (ls ! i)"
proof (induction ls arbitrary: cumulative i)
  case Nil
  then show ?case by simp
next
  case (Cons level rest)
  show ?case
  proof (cases i)
    case 0
    then show ?thesis by auto
  next
    case (Suc j)
    with Cons.prems have "j < length rest" by simp
    from Cons.IH [OF this, of "cumulative + qty level"] Suc show ?thesis by simp
  qed
qed

text \<open>
  C10. A level of the new snapshot whose price has no entry in the previous enriched map
  is never flagged as a spoof, for every trade list and either side: the result has one
  entry per input level, at the same price, and that entry has \<open>isSpoof = False\<close>.
\<close>

theorem analyzeDOM_new_price_never_spoof:
  "i < length newLevels \<Longrightarrow> prevLevels (lvlPrice (newLevels ! i)) = None \<Longrightarrow>
   length (analyzeDOM newLevels prevLevels recentTrades side) = length newLevels
   \<and> lvlPrice (analyzeDOM newLevels prevLevels recentTrades side ! i) = lvlPrice (newLevels ! i)
   \<and> \<not> isSpoof (analyzeDOM newLevels prevLevels recentTrades side ! i)"
proof -
  assume i: "i < length newLevels" and new: "prevLevels (lvlPrice (newLevels ! i)) = None"
  obtain c where
    c: "analyzeDOM newLevels prevLevels recentTrades side ! i
        = enrichLevel side prevLevels (aggregateTrades side recentTrades) c (newLevels ! i)"
    using enrichLevels_nth [OF i] unfolding analyzeDOM_def by blast
  show ?thesis
    using new by (simp add: c enrichLevel_lvlPrice enrichLevel_isSpoof_new)
      (simp add: analyzeDOM_def length_enrichLevels)
qed

theorem analyzeDOM_new_price_never_spoof_witness:
  "(0::nat) < length [\<lparr>lvlPrice = 100, qty = 1, total = 1, depthRatio = 1\<rparr>]
   \<and> (Map.empty :: real \<rightharpoonup> EnrichedLevel)
        (lvlPrice ([\<lparr>lvlPrice = 100, qty = 1, total = 1, depthRatio = 1\<rparr>] ! 0)) = None
   \<and> length (analyzeDOM [\<lparr>lvlPrice = 100, qty = 1, total = 1, depthRatio = 1\<rparr>] Map.empty
        [\<lparr>tradeId = 1, tradePrice = 100, tradeQty = 2, tradeTime = 5, isBuyerMaker = True,
          isLarge = False\<rparr>] bid) = 1
   \<and> \<not> isSpoof (analyzeDOM [\<lparr>lvlPrice = 100, qty = 1, total = 1, depthRatio = 1\<rparr>] Map.empty
        [\<lparr>tradeId = 1, tradePrice = 100, tradeQty = 2, tradeTime = 5, isBuyerMaker = True,
          isLarge = False\<rparr>] bid ! 0)"
  using analyzeDOM_new_price_never_spoof
    [of 0 "[\<lparr>lvlPrice = 100, qty = 1, total = 1, depthRatio = 1\<rparr>]" Map.empty
        "[\<lparr>tradeId = 1, tradePrice = 100, tradeQty = 2, tradeTime = 5, isBuyerMaker = True,
          isLarge = False\<rparr>]" bid]
  by simp


subsection \<open>Persistent event engine\<close>

lemma reinforce_fields:
  "firstDetected (reinforce t now lvl e) = firstDetected e"
  "evPrice (reinforce t now lvl e) = evPrice e"
  "evSide (reinforce t now lvl e) = evSide e"
  "isFailed (reinforce t now lvl e) = isFailed e"
  "state (reinforce t now lvl e) = state e \<or> state (reinforce t now lvl e) = STACK"
  by (simp_all add: reinforce_def Let_def)

lemma processLevel_eventOk:
  assumes "\<forall>(k, e) \<in> set evs. eventOk now e"
  shows "\<forall>(k, e) \<in> set (processLevel side now lastPrice evs lvl). eventOk now e"
proof (cases "detect lvl")
  case None
  with assms show ?thesis by (simp add: processLevel_def)
next
  case (Some d)
  obtain t st where d: "d = (t, st)" by (cases d)
  show ?thesis
  proof (cases "map_of evs (side, lvlPrice lvl)")
    case None
    have "eventOk now \<lparr>evId = (side, lvlPrice lvl), evType = t, evPrice = lvlPrice lvl,
        evSide = side,
        state = (if t = TypeABSORPTION \<or> t = TypeICE then ABSORPTION else STACK),
        firstDetected = now, lastConfirmed = now, failTime = None,
        evVolume = qty lvl, peakVolume = qty lvl, strength = st,
        confirmations = 1, failedPushes = 0, failConfidence = 0,
        remDropRatio = None, isActive = True, isRetest = False, isFailed = False\<rparr>"
      by (simp add: eventOk_def)
    with assms None Some d show ?thesis
      by (auto simp: processLevel_def Let_def dest!: set_update_subset)
  next
    case (Some existing)
    then have mem: "((side, lvlPrice lvl), existing) \<in> set evs"
      by (rule map_of_SomeD)
    with assms have ok: "eventOk now existing" by auto
    have "state existing \<noteq> FAIL \<Longrightarrow> state existing \<noteq> BROKEN \<Longrightarrow>
          eventOk now (reinforce t now lvl existing)"
      using ok reinforce_fields(5) [of t now lvl existing]
      by (auto simp: eventOk_def reinforce_fields(1,4))
    with assms Some \<open>detect lvl = Some d\<close> d show ?thesis
      by (auto simp: processLevel_def Let_def dest!: set_update_subset)
  qed
qed

lemma processLevels_eventOk:
  "\<forall>(k, e) \<in> set evs. eventOk now e \<Longrightarrow>
   \<forall>(k, e) \<in> set (processLevels lvls side now lastPrice evs). eventOk now e"
  unfolding processLevels_def
proof (induction lvls arbitrary: evs)
  case Nil
  then show ?case by simp
next
  case (Cons lvl lvls)
  from Cons.IH [OF processLevel_eventOk [OF Cons.prems]] show ?case by simp
qed

lemma promote_fields:
  "firstDetected (promote now a e) = firstDetected e"
  "evPrice (promote now a e) = evPrice e"
  "evSide (promote now a e) = evSide e"
  "isFailed (promote now a e) = isFailed e"
  "state (promote now a e) = FAIL \<longleftrightarrow> state e = FAIL"
  "state (promote now a e) = BROKEN \<longleftrightarrow> state e = BROKEN"
  by (auto simp: promote_def Let_def)

lemma retestAndDecay_fields:
  "firstDetected (retestAndDecay j a w lp e) = firstDetected e"
  "evPrice (retestAndDecay j a w lp e) = evPrice e"
  "evSide (retestAndDecay j a w lp e) = evSide e"
  "isFailed (retestAndDecay j a w lp e) = isFailed e"
  "state (retestAndDecay j a w lp e) = state e"
  by (simp_all add: retestAndDecay_def Let_def)

lemma failTransition_fields:
  "firstDetected (fst (failTransition now a lastPrice cds e)) = firstDetected e"
  "evPrice (fst (failTransition now a lastPrice cds e)) = evPrice e"
  "evSide (fst (failTransition now a lastPrice cds e)) = evSide e"
  by (simp_all add: failTransition_def Let_def)

lemma isBreached_cong:
  "evPrice e' = evPrice e \<Longrightarrow> evSide e' = evSide e \<Longrightarrow>
   isBreached lastPrice e' = isBreached lastPrice e"
  by (simp add: isBreached_def)

lemma failTransition_young:
  assumes "ageMs \<le> 60000" and "isBreached lastPrice e"
    and "state e \<noteq> FAIL" and "isFailed e \<longrightarrow> state e = BROKEN"
  shows "state (fst (failTransition now ageMs lastPrice cds e)) = BROKEN"
    and "snd (failTransition now ageMs lastPrice cds e) = cds"
  using assms by (simp_all add: failTransition_def Let_def)

lemma stepEvent_cases:
  "stepEvent now windowMs lastPrice cds e = (None, cds)
   \<or> stepEvent now windowMs lastPrice cds e =
       (Some (retestAndDecay ((now - lastConfirmed e) < 500) (now - firstDetected e)
                windowMs lastPrice
                (fst (failTransition now (now - firstDetected e) lastPrice cds
                        (promote now (now - firstDetected e) e)))),
        snd (failTransition now (now - firstDetected e) lastPrice cds
                        (promote now (now - firstDetected e) e)))"
  unfolding stepEvent_def Let_def case_prod_beta by (cases "state e = FAIL") simp_all

lemma stepEvent_Some:
  assumes "stepEvent now windowMs lastPrice cds e = (Some e', cds')"
  shows "e' = retestAndDecay ((now - lastConfirmed e) < 500) (now - firstDetected e)
                windowMs lastPrice
                (fst (failTransition now (now - firstDetected e) lastPrice cds
                        (promote now (now - firstDetected e) e)))"
    and "cds' = snd (failTransition now (now - firstDetected e) lastPrice cds
                        (promote now (now - firstDetected e) e))"
  using assms stepEvent_cases [of now windowMs lastPrice cds e] by auto

lemma stepEvent_fields:
  assumes "stepEvent now windowMs lastPrice cds e = (Some e', cds')"
  shows "firstDetected e' = firstDetected e \<and> evPrice e' = evPrice e \<and> evSide e' = evSide e"
  by (simp add: stepEvent_Some(1) [OF assms] retestAndDecay_fields failTransition_fields
      promote_fields)

lemma stepEvent_young_breach:
  assumes young: "now - firstDetected e \<le> 60000" and br: "isBreached lastPrice e"
    and nf: "state e \<noteq> FAIL" and fl: "isFailed e \<longrightarrow> state e = BROKEN"
    and step: "stepEvent now windowMs lastPrice cds e = (Some e', cds')"
  shows "state e' = BROKEN \<and> cds' = cds"
proof -
  have b: "isBreached lastPrice (promote now (now - firstDetected e) e)"
    using br by (simp add: isBreached_cong [OF promote_fields(2,3)])
  have s: "state (promote now (now - firstDetected e) e) \<noteq> FAIL"
    using nf by (simp add: promote_fields)
  have f: "isFailed (promote now (now - firstDetected e) e)
           \<longrightarrow> state (promote now (now - firstDetected e) e) = BROKEN"
    using fl by (simp add: promote_fields)
  show ?thesis
    by (simp add: stepEvent_Some [OF step] retestAndDecay_fields
        failTransition_young [OF young b s f])
qed

lemma processEvents_entry:
  "processEvents now windowMs lastPrice evs cds = (evs', cds') \<Longrightarrow> (k, e') \<in> set evs' \<Longrightarrow>
   \<exists>e c c'. (k, e) \<in> set evs \<and> stepEvent now windowMs lastPrice c e = (Some e', c')"
proof (induction evs arbitrary: cds evs' cds')
  case Nil
  then show ?case by simp
next
  case (Cons a evs)
  obtain k0 e0 where a: "a = (k0, e0)" by (cases a)
  obtain r c1 where st: "stepEvent now windowMs lastPrice cds e0 = (r, c1)"
    by (cases "stepEvent now windowMs lastPrice cds e0")
  obtain rest' c2 where pe: "processEvents now windowMs lastPrice evs c1 = (rest', c2)"
    by (cases "processEvents now windowMs lastPrice evs c1")
  show ?case
  proof (cases r)
    case None
    with Cons.prems a st pe have "evs' = rest'" by simp
    with Cons.IH [OF pe] Cons.prems(2) show ?thesis by (auto simp: a)
  next
    case (Some e1)
    with Cons.prems a st pe have evs': "evs' = (k0, e1) # rest'" by simp
    show ?thesis
    proof (cases "(k, e') = (k0, e1)")
      case True
      with st Some show ?thesis by (auto simp: a)
    next
      case False
      with evs' Cons.prems(2) have "(k, e') \<in> set rest'" by auto
      with Cons.IH [OF pe] show ?thesis by (auto simp: a)
    qed
  qed
qed

lemma process_proj:
  "events (snd (process bids asks lastPrice now rnd eng)) =
     fst (processEvents now (windowMinutes eng * 60 * 1000) lastPrice
           (processLevels asks ask now lastPrice
              (processLevels bids bid now lastPrice (events eng)))
           (failCooldowns eng))"
  "failCooldowns (snd (process bids asks lastPrice now rnd eng)) =
     (if rnd > 0.95 then cleanupCooldowns now else id)
     (snd (processEvents now (windowMinutes eng * 60 * 1000) lastPrice
           (processLevels asks ask now lastPrice
              (processLevels bids bid now lastPrice (events eng)))
           (failCooldowns eng)))"
  by (simp_all add: process_def Let_def case_prod_beta)

text \<open>
  C5. An event that is at most 60000 ms old and whose price is breached by \<open>lastPrice\<close>
  beyond the 0.03% tolerance does not go to \<open>FAIL\<close> in that tick: every such event of the
  engine after a \<open>process\<close> call is in state \<open>BROKEN\<close>. The engine state before the call
  is one the engine can reach (\<open>eventOk\<close>).
\<close>

theorem process_young_breach_is_BROKEN:
  assumes inv: "\<forall>(k, e) \<in> set (events eng). eventOk now e"
  shows "\<forall>(k, e') \<in> set (events (snd (process bids asks lastPrice now rnd eng))).
           now - firstDetected e' \<le> 60000 \<and> isBreached lastPrice e' \<longrightarrow> state e' = BROKEN"
proof -
  define evs2 where "evs2 = processLevels asks ask now lastPrice
                              (processLevels bids bid now lastPrice (events eng))"
  define w where "w = windowMinutes eng * 60 * 1000"
  obtain evs3 cds1 where pe:
    "processEvents now w lastPrice evs2 (failCooldowns eng) = (evs3, cds1)"
    by (cases "processEvents now w lastPrice evs2 (failCooldowns eng)")
  have res: "events (snd (process bids asks lastPrice now rnd eng)) = evs3"
    by (simp add: process_proj(1) evs2_def [symmetric] w_def [symmetric] pe)
  have ok2: "\<forall>(k, e) \<in> set evs2. eventOk now e"
    unfolding evs2_def by (intro processLevels_eventOk inv)
  show ?thesis
    unfolding res
  proof (clarify)
    fix k e'
    assume mem: "(k, e') \<in> set evs3" and young: "now - firstDetected e' \<le> 60000"
      and br: "isBreached lastPrice e'"
    from processEvents_entry [OF pe mem] obtain e c c' where
      e: "(k, e) \<in> set evs2"
      and st: "stepEvent now w lastPrice c e = (Some e', c')"
      by blast
    from stepEvent_fields [OF st] young br
    have young0: "now - firstDetected e \<le> 60000" and br0: "isBreached lastPrice e"
      by (simp_all add: isBreached_def)
    from ok2 e have "eventOk now e" by auto
    with young0 have "state e \<noteq> FAIL" "isFailed e \<longrightarrow> state e = BROKEN"
      by (auto simp: eventOk_def)
    from stepEvent_young_breach [OF young0 br0 this st] show "state e' = BROKEN" by simp
  qed
qed

theorem process_young_breach_is_BROKEN_witness:
  "map (\<lambda>(k, e'). (30000 - firstDetected e' \<le> 60000, isBreached 49900 e', state e'))
     (events (snd (process [] [] 49900 30000 0
        \<lparr>events = [((bid, 50000), stackBid 29900)], windowMinutes = 30,
         failCooldowns = Map.empty\<rparr>)))
   = [(True, True, BROKEN)]"
proof -
  have h: "\<forall>(k, e) \<in> set (events \<lparr>events = [((bid, 50000), stackBid 29900)],
                               windowMinutes = 30, failCooldowns = Map.empty\<rparr>).
             eventOk 30000 e"
    by (simp add: eventOk_def stackBid_def)
  have a: "map (\<lambda>(k, e'). (30000 - firstDetected e' \<le> 60000, isBreached 49900 e'))
     (events (snd (process [] [] 49900 30000 0
        \<lparr>events = [((bid, 50000), stackBid 29900)], windowMinutes = 30,
         failCooldowns = Map.empty\<rparr>)))
     = [(True, True)]"
    by code_simp
  then obtain k e' where ev: "events (snd (process [] [] 49900 30000 0
        \<lparr>events = [((bid, 50000), stackBid 29900)], windowMinutes = 30,
         failCooldowns = Map.empty\<rparr>)) = [(k, e')]"
    and ye: "30000 - firstDetected e' \<le> 60000" "isBreached 49900 e'"
    by auto
  from process_young_breach_is_BROKEN [OF h, of "[]" "[]" 49900 0] ev ye
  have "state e' = BROKEN" by simp
  with ev ye show ?thesis by simp
qed

lemma eventOk_later: "eventOk now e \<Longrightarrow> now \<le> now' \<Longrightarrow> eventOk now' e"
  by (auto simp: eventOk_def)

lemma promote_eventOk: "eventOk now e \<Longrightarrow> eventOk now (promote now a e)"
  unfolding eventOk_def promote_fields
  by (cases "isFailed e") (auto simp: promote_def Let_def)

lemma failTransition_eventOk:
  "eventOk now e \<Longrightarrow>
   eventOk now (fst (failTransition now (now - firstDetected e) lastPrice cds e))"
  by (simp add: eventOk_def failTransition_def Let_def)

lemma retestAndDecay_eventOk:
  "eventOk now e \<Longrightarrow> eventOk now (retestAndDecay j a w lp e)"
  by (simp add: eventOk_def retestAndDecay_fields)

lemma stepEvent_eventOk:
  assumes "stepEvent now windowMs lastPrice cds e = (Some e', cds')" and "eventOk now e"
  shows "eventOk now e'"
proof -
  have "eventOk now (promote now (now - firstDetected e) e)"
    using assms(2) by (rule promote_eventOk)
  from failTransition_eventOk [OF this, of lastPrice cds]
  have "eventOk now (fst (failTransition now (now - firstDetected e) lastPrice cds
                            (promote now (now - firstDetected e) e)))"
    by (simp add: promote_fields)
  then show ?thesis
    by (simp add: stepEvent_Some(1) [OF assms(1)] retestAndDecay_eventOk)
qed

text \<open>
  \<open>eventOk\<close> is an invariant of the engine: it holds of the empty engine, and a
  \<open>process\<close> call keeps it for the time of the call and for every later time.
\<close>

lemma process_preserves_eventOk:
  assumes "\<forall>(k, e) \<in> set (events eng). eventOk now e" and "now \<le> now'"
  shows "\<forall>(k, e) \<in> set (events (snd (process bids asks lastPrice now rnd eng))).
           eventOk now' e"
proof (clarify)
  fix k e'
  assume mem: "(k, e') \<in> set (events (snd (process bids asks lastPrice now rnd eng)))"
  define evs2 where "evs2 = processLevels asks ask now lastPrice
                              (processLevels bids bid now lastPrice (events eng))"
  have ok2: "\<forall>(k, e) \<in> set evs2. eventOk now e"
    unfolding evs2_def by (intro processLevels_eventOk assms(1))
  define w where "w = windowMinutes eng * 60 * 1000"
  obtain evs3 cds1 where pe:
    "processEvents now w lastPrice evs2 (failCooldowns eng) = (evs3, cds1)"
    by (cases "processEvents now w lastPrice evs2 (failCooldowns eng)")
  from mem have "(k, e') \<in> set evs3"
    by (simp add: process_proj(1) evs2_def [symmetric] w_def [symmetric] pe)
  from processEvents_entry [OF pe this] obtain e c c' where
    e: "(k, e) \<in> set evs2"
    and st: "stepEvent now w lastPrice c e = (Some e', c')"
    by blast
  from ok2 e have "eventOk now e" by auto
  from eventOk_later [OF stepEvent_eventOk [OF st this] assms(2)] show "eventOk now' e'" .
qed

lemma newEventEngine_eventOk:
  "\<forall>(k, e) \<in> set (events newEventEngine). eventOk now e"
  by (simp add: newEventEngine_def)

lemma reinforce_not_FAIL:
  "state e \<noteq> FAIL \<Longrightarrow> state (reinforce t now lvl e) \<noteq> FAIL"
  using reinforce_fields(5) [of t now lvl e] by auto

lemma processLevel_FAIL_old:
  assumes "(k, e') \<in> set (processLevel side now lastPrice evs lvl)" and "state e' = FAIL"
  shows "(k, e') \<in> set evs"
proof (cases "detect lvl")
  case None
  with assms show ?thesis by (simp add: processLevel_def)
next
  case (Some d)
  obtain t st where d: "d = (t, st)" by (cases d)
  show ?thesis
  proof (cases "map_of evs (side, lvlPrice lvl)")
    case None
    with assms Some d show ?thesis
      by (auto simp: processLevel_def Let_def split: if_splits dest!: set_update_subset)
  next
    case (Some existing)
    with assms \<open>detect lvl = Some d\<close> d show ?thesis
      by (auto simp: processLevel_def Let_def reinforce_not_FAIL split: if_splits
          dest!: set_update_subset)
  qed
qed

lemma processLevels_FAIL_old:
  "(k, e') \<in> set (processLevels lvls side now lastPrice evs) \<Longrightarrow> state e' = FAIL \<Longrightarrow>
   (k, e') \<in> set evs"
  unfolding processLevels_def
proof (induction lvls arbitrary: evs)
  case Nil
  then show ?case by simp
next
  case (Cons lvl lvls)
  from Cons.IH [of "processLevel side now lastPrice evs lvl"] Cons.prems
  have "(k, e') \<in> set (processLevel side now lastPrice evs lvl)" by simp
  from processLevel_FAIL_old [OF this Cons.prems(2)] show ?case .
qed

lemma failTransition_cooldowns:
  "snd (failTransition now a lastPrice cds e) = cds
   \<or> snd (failTransition now a lastPrice cds e) = cds(bucketOf (evPrice e) \<mapsto> now + 300000)"
  by (simp add: failTransition_def Let_def)

lemma failTransition_to_FAIL:
  "state e \<noteq> FAIL \<Longrightarrow>
   state (fst (failTransition now a lastPrice cds e)) = FAIL \<longrightarrow>
     snd (failTransition now a lastPrice cds e) = cds(bucketOf (evPrice e) \<mapsto> now + 300000)
     \<and> now > cooldownOf cds (bucketOf (evPrice e))"
  by (simp add: failTransition_def Let_def)

lemma stepEvent_cooldowns:
  assumes "stepEvent now windowMs lastPrice cds e = (r, cds')"
  shows "cds' = cds \<or> cds' = cds(bucketOf (evPrice e) \<mapsto> now + 300000)"
  using assms stepEvent_cases [of now windowMs lastPrice cds e]
    failTransition_cooldowns [of now "now - firstDetected e" lastPrice cds
      "promote now (now - firstDetected e) e"]
  by (auto simp: promote_fields)

lemma stepEvent_to_FAIL:
  assumes "stepEvent now windowMs lastPrice cds e = (Some e', cds')"
    and "state e' = FAIL" and "state e \<noteq> FAIL"
  shows "cds' = cds(bucketOf (evPrice e) \<mapsto> now + 300000)
         \<and> now > cooldownOf cds (bucketOf (evPrice e))"
proof -
  have "state (promote now (now - firstDetected e) e) \<noteq> FAIL"
    using assms(3) by (simp add: promote_fields)
  from failTransition_to_FAIL [OF this, of now "now - firstDetected e" lastPrice cds]
  show ?thesis
    using assms(2) by (simp add: stepEvent_Some [OF assms(1)] retestAndDecay_fields promote_fields)
qed

lemma stepEvent_keeps_mark:
  assumes "stepEvent now windowMs lastPrice cds e = (r, cds')"
    and "cds b = Some (now + 300000)"
  shows "cds' b = Some (now + 300000)"
  using stepEvent_cooldowns [OF assms(1)] assms(2) by auto

lemma processEvents_keeps_mark:
  "processEvents now windowMs lastPrice evs cds = (evs', cds') \<Longrightarrow>
   cds b = Some (now + 300000) \<Longrightarrow> cds' b = Some (now + 300000)"
proof (induction evs arbitrary: cds evs' cds')
  case Nil
  then show ?case by simp
next
  case (Cons a evs)
  obtain k0 e0 where a: "a = (k0, e0)" by (cases a)
  obtain r c1 where st: "stepEvent now windowMs lastPrice cds e0 = (r, c1)"
    by (cases "stepEvent now windowMs lastPrice cds e0")
  obtain rest' c2 where pe: "processEvents now windowMs lastPrice evs c1 = (rest', c2)"
    by (cases "processEvents now windowMs lastPrice evs c1")
  from Cons.prems(1) a st pe have "cds' = c2" by (cases r) simp_all
  with Cons.IH [OF pe stepEvent_keeps_mark [OF st Cons.prems(2)]] show ?case by simp
qed

lemma processEvents_new_FAIL_marks:
  "processEvents now windowMs lastPrice evs cds = (evs', cds') \<Longrightarrow>
   (k, e') \<in> set evs' \<Longrightarrow> state e' = FAIL \<Longrightarrow>
   \<forall>e. (k, e) \<in> set evs \<longrightarrow> state e \<noteq> FAIL \<Longrightarrow>
   cds' (bucketOf (evPrice e')) = Some (now + 300000)"
proof (induction evs arbitrary: cds evs' cds')
  case Nil
  then show ?case by simp
next
  case (Cons a evs)
  obtain k0 e0 where a: "a = (k0, e0)" by (cases a)
  obtain r c1 where st: "stepEvent now windowMs lastPrice cds e0 = (r, c1)"
    by (cases "stepEvent now windowMs lastPrice cds e0")
  obtain rest' c2 where pe: "processEvents now windowMs lastPrice evs c1 = (rest', c2)"
    by (cases "processEvents now windowMs lastPrice evs c1")
  have c2: "cds' = c2" using Cons.prems(1) a st pe by (cases r) simp_all
  have rest_old: "\<forall>e. (k, e) \<in> set evs \<longrightarrow> state e \<noteq> FAIL"
    using Cons.prems(4) by auto
  show ?case
  proof (cases "(k, e') \<in> set rest'")
    case True
    from Cons.IH [OF pe True Cons.prems(3) rest_old] c2 show ?thesis by simp
  next
    case False
    with Cons.prems(1,2) a st pe have hd: "r = Some e'" "k = k0"
      by (cases r; auto)+
    with Cons.prems(4) a have "state e0 \<noteq> FAIL" by auto
    from stepEvent_to_FAIL [OF st [unfolded hd(1)] Cons.prems(3) this]
    have "c1 (bucketOf (evPrice e0)) = Some (now + 300000)" by simp
    moreover have "evPrice e' = evPrice e0"
      using stepEvent_fields [OF st [unfolded hd(1)]] by simp
    ultimately show ?thesis
      using processEvents_keeps_mark [OF pe] c2 by simp
  qed
qed

lemma stepEvent_gate:
  assumes "stepEvent now windowMs lastPrice cds e = (r, cds')"
    and "cds b = Some c" and "now \<le> c"
  shows "cds' b = Some c"
    and "r = Some e' \<Longrightarrow> state e' = FAIL \<Longrightarrow> bucketOf (evPrice e') = b \<Longrightarrow> state e = FAIL"
proof -
  have keep: "bucketOf (evPrice e) \<noteq> b \<or> cds' = cds"
  proof (cases r)
    case None
    with assms(1) stepEvent_cases [of now windowMs lastPrice cds e] show ?thesis by auto
  next
    case (Some e1)
    show ?thesis
    proof (cases "state e1 = FAIL \<and> state e \<noteq> FAIL")
      case True
      from stepEvent_to_FAIL [OF assms(1) [unfolded Some]] True assms(2,3)
      show ?thesis by (auto simp: cooldownOf_def)
    next
      case False
      have "state (fst (failTransition now (now - firstDetected e) lastPrice cds
                (promote now (now - firstDetected e) e))) = state e1"
        by (simp add: stepEvent_Some(1) [OF assms(1) [unfolded Some]] retestAndDecay_fields)
      moreover have "state (fst (failTransition now a lastPrice cds x)) \<noteq> FAIL
           \<or> state x = FAIL \<Longrightarrow> snd (failTransition now a lastPrice cds x) = cds" for a x
        by (auto simp: failTransition_def Let_def)
      ultimately show ?thesis
        using False stepEvent_Some(2) [OF assms(1) [unfolded Some]]
        by (auto simp: promote_fields)
    qed
  qed
  from stepEvent_cooldowns [OF assms(1)] keep assms(2) show "cds' b = Some c" by auto
  show "state e = FAIL" if "r = Some e'" "state e' = FAIL" "bucketOf (evPrice e') = b"
  proof (rule ccontr)
    assume "state e \<noteq> FAIL"
    from stepEvent_to_FAIL [OF assms(1) [unfolded that(1)] that(2) this]
      stepEvent_fields [OF assms(1) [unfolded that(1)]] that(3) assms(2,3)
    show False by (simp add: cooldownOf_def)
  qed
qed

lemma processEvents_gate:
  "processEvents now windowMs lastPrice evs cds = (evs', cds') \<Longrightarrow>
   cds b = Some c \<Longrightarrow> now \<le> c \<Longrightarrow>
   cds' b = Some c
   \<and> (\<forall>k e'. (k, e') \<in> set evs' \<and> state e' = FAIL \<and> bucketOf (evPrice e') = b
        \<longrightarrow> (\<exists>e. (k, e) \<in> set evs \<and> state e = FAIL))"
proof (induction evs arbitrary: cds evs' cds')
  case Nil
  then show ?case by simp
next
  case (Cons a evs)
  obtain k0 e0 where a: "a = (k0, e0)" by (cases a)
  obtain r c1 where st: "stepEvent now windowMs lastPrice cds e0 = (r, c1)"
    by (cases "stepEvent now windowMs lastPrice cds e0")
  obtain rest' c2 where pe: "processEvents now windowMs lastPrice evs c1 = (rest', c2)"
    by (cases "processEvents now windowMs lastPrice evs c1")
  have c1: "c1 b = Some c" by (rule stepEvent_gate(1) [OF st Cons.prems(2,3)])
  from Cons.IH [OF pe c1 Cons.prems(3)]
  have ih: "c2 b = Some c"
    "\<And>k e'. (k, e') \<in> set rest' \<Longrightarrow> state e' = FAIL \<Longrightarrow> bucketOf (evPrice e') = b
        \<Longrightarrow> \<exists>e. (k, e) \<in> set evs \<and> state e = FAIL"
    by blast+
  show ?case
  proof (cases r)
    case None
    with Cons.prems(1) a st pe have "evs' = rest'" "cds' = c2" by simp_all
    with ih show ?thesis by (fastforce simp: a)
  next
    case (Some e1)
    with Cons.prems(1) a st pe have res: "evs' = (k0, e1) # rest'" "cds' = c2" by simp_all
    have hd: "state e1 = FAIL \<Longrightarrow> bucketOf (evPrice e1) = b \<Longrightarrow> state e0 = FAIL"
      using stepEvent_gate(2) [OF st Cons.prems(2,3) Some] by simp
    show ?thesis
      unfolding res a using ih hd by fastforce
  qed
qed

text \<open>
  Within the call in which an event goes to \<open>FAIL\<close>, the events of the same bucket that the
  loop visits afterwards are blocked as well.
\<close>

lemma processEvents_after_FAIL:
  assumes "stepEvent now windowMs lastPrice cds e = (Some e', cds1)"
    and "state e \<noteq> FAIL" and "state e' = FAIL"
    and "processEvents now windowMs lastPrice rest cds1 = (rest', cds2)"
    and "(k, x') \<in> set rest'" and "state x' = FAIL"
    and "bucketOf (evPrice x') = bucketOf (evPrice e)"
  shows "\<exists>x. (k, x) \<in> set rest \<and> state x = FAIL"
proof -
  from stepEvent_to_FAIL [OF assms(1,3,2)]
  have "cds1 (bucketOf (evPrice e)) = Some (now + 300000)" by simp
  from processEvents_gate [OF assms(4) this]
  have "\<forall>k e'. (k, e') \<in> set rest' \<and> state e' = FAIL
            \<and> bucketOf (evPrice e') = bucketOf (evPrice e)
          \<longrightarrow> (\<exists>x. (k, x) \<in> set rest \<and> state x = FAIL)"
    by simp
  with assms(5-7) show ?thesis by blast
qed

lemma cleanupCooldowns_keep:
  "cds b = Some c \<Longrightarrow> now \<le> c \<Longrightarrow> cleanupCooldowns now cds b = Some c"
  by (simp add: cleanupCooldowns_def)

lemma process_sets_cooldown:
  assumes "newFailIn b (events eng) (events (snd (process bids asks lastPrice now rnd eng)))"
  shows "failCooldowns (snd (process bids asks lastPrice now rnd eng)) b = Some (now + 300000)"
proof -
  define evs2 where "evs2 = processLevels asks ask now lastPrice
                              (processLevels bids bid now lastPrice (events eng))"
  define w where "w = windowMinutes eng * 60 * 1000"
  obtain evs3 cds1 where pe:
    "processEvents now w lastPrice evs2 (failCooldowns eng) = (evs3, cds1)"
    by (cases "processEvents now w lastPrice evs2 (failCooldowns eng)")
  have res: "events (snd (process bids asks lastPrice now rnd eng)) = evs3"
    "failCooldowns (snd (process bids asks lastPrice now rnd eng))
       = (if rnd > 0.95 then cleanupCooldowns now else id) cds1"
    by (simp_all add: process_proj evs2_def [symmetric] w_def [symmetric] pe)
  from assms obtain k e' where
    mem: "(k, e') \<in> set evs3" and fl: "state e' = FAIL" and bk: "bucketOf (evPrice e') = b"
    and new: "\<forall>e. (k, e) \<in> set (events eng) \<longrightarrow> state e \<noteq> FAIL"
    unfolding newFailIn_def res list_ex_iff by fastforce
  have "\<forall>e. (k, e) \<in> set evs2 \<longrightarrow> state e \<noteq> FAIL"
    using new processLevels_FAIL_old unfolding evs2_def by blast
  from processEvents_new_FAIL_marks [OF pe mem fl this] bk
  have "cds1 b = Some (now + 300000)" by simp
  then show ?thesis
    by (simp add: res cleanupCooldowns_keep)
qed

lemma process_gate:
  assumes "failCooldowns eng b = Some c" and "now \<le> c"
  shows "failCooldowns (snd (process bids asks lastPrice now rnd eng)) b = Some c"
    and "\<not> newFailIn b (events eng) (events (snd (process bids asks lastPrice now rnd eng)))"
proof -
  define evs2 where "evs2 = processLevels asks ask now lastPrice
                              (processLevels bids bid now lastPrice (events eng))"
  define w where "w = windowMinutes eng * 60 * 1000"
  obtain evs3 cds1 where pe:
    "processEvents now w lastPrice evs2 (failCooldowns eng) = (evs3, cds1)"
    by (cases "processEvents now w lastPrice evs2 (failCooldowns eng)")
  have res: "events (snd (process bids asks lastPrice now rnd eng)) = evs3"
    "failCooldowns (snd (process bids asks lastPrice now rnd eng))
       = (if rnd > 0.95 then cleanupCooldowns now else id) cds1"
    by (simp_all add: process_proj evs2_def [symmetric] w_def [symmetric] pe)
  from processEvents_gate [OF pe assms]
  have g: "cds1 b = Some c"
    "\<And>k e'. (k, e') \<in> set evs3 \<Longrightarrow> state e' = FAIL \<Longrightarrow> bucketOf (evPrice e') = b
        \<Longrightarrow> \<exists>e. (k, e) \<in> set evs2 \<and> state e = FAIL"
    by blast+
  show "failCooldowns (snd (process bids asks lastPrice now rnd eng)) b = Some c"
    using g(1) assms(2) by (simp add: res cleanupCooldowns_keep)
  show "\<not> newFailIn b (events eng) (events (snd (process bids asks lastPrice now rnd eng)))"
  proof
    assume "newFailIn b (events eng) (events (snd (process bids asks lastPrice now rnd eng)))"
    then obtain k e' where
      mem: "(k, e') \<in> set evs3" and fl: "state e' = FAIL" and bk: "bucketOf (evPrice e') = b"
      and new: "\<forall>e. (k, e) \<in> set (events eng) \<longrightarrow> state e \<noteq> FAIL"
      unfolding newFailIn_def res list_ex_iff by fastforce
    from g(2) [OF mem fl bk] obtain e where e: "(k, e) \<in> set evs2" "state e = FAIL" by blast
    then have "(k, e) \<in> set (events eng)"
      unfolding evs2_def by (blast dest: processLevels_FAIL_old)
    with new e(2) show False by blast
  qed
qed

text \<open>
  C6. After a \<open>process\<close> call at time \<open>t\<close> in which an event of the 10-unit price bucket
  \<open>b\<close> went to \<open>FAIL\<close> (which sets the cooldown of \<open>b\<close> to \<open>t + 300000\<close>), no event at
  any price of the same bucket goes to \<open>FAIL\<close> during the following calls, as long as
  their time is at most \<open>t + 300000\<close>.
\<close>

theorem fail_cooldown_blocks_bucket:
  assumes "newFailIn b (events eng) (events (snd (process bids asks lastPrice t rnd eng)))"
    and "\<forall>c \<in> set cs. callNow c \<le> t + 300000"
  shows "noFailDuring b (snd (process bids asks lastPrice t rnd eng)) cs"
proof -
  have run: "failCooldowns eng1 b = Some (t + 300000) \<Longrightarrow>
             \<forall>c \<in> set cs. callNow c \<le> t + 300000 \<Longrightarrow> noFailDuring b eng1 cs" for eng1
  proof (induction cs arbitrary: eng1)
    case Nil
    then show ?case by simp
  next
    case (Cons c cs)
    from Cons.prems(2) have le: "callNow c \<le> t + 300000" by simp
    from process_gate [OF Cons.prems(1) le]
    have "failCooldowns (processCall c eng1) b = Some (t + 300000)"
      and "\<not> newFailIn b (events eng1) (events (processCall c eng1))"
      by (simp_all add: processCall_def)
    with Cons.IH [of "processCall c eng1"] Cons.prems(2) show ?case by simp
  qed
  from run [OF process_sets_cooldown [OF assms(1)] assms(2)] show ?thesis .
qed

theorem fail_cooldown_blocks_bucket_witness:
  "newFailIn 50000
      (events \<lparr>events = [((bid, 50000), holdingBid), ((ask, 50005), holdingAsk)],
               windowMinutes = 30, failCooldowns = Map.empty\<rparr>)
      (events (snd (process [] [] 49900 400000 0
         \<lparr>events = [((bid, 50000), holdingBid), ((ask, 50005), holdingAsk)],
          windowMinutes = 30, failCooldowns = Map.empty\<rparr>)))
   \<and> callNow \<lparr>callBids = [], callAsks = [], callLastPrice = 50100, callNow = 500000,
               callRnd = 0\<rparr> \<le> 400000 + 300000
   \<and> noFailDuring 50000
        (snd (process [] [] 49900 400000 0
           \<lparr>events = [((bid, 50000), holdingBid), ((ask, 50005), holdingAsk)],
            windowMinutes = 30, failCooldowns = Map.empty\<rparr>))
        [\<lparr>callBids = [], callAsks = [], callLastPrice = 50100, callNow = 500000,
          callRnd = 0\<rparr>]"
proof -
  have h1: "newFailIn 50000
      (events \<lparr>events = [((bid, 50000), holdingBid), ((ask, 50005), holdingAsk)],
               windowMinutes = 30, failCooldowns = Map.empty\<rparr>)
      (events (snd (process [] [] 49900 400000 0
         \<lparr>events = [((bid, 50000), holdingBid), ((ask, 50005), holdingAsk)],
          windowMinutes = 30, failCooldowns = Map.empty\<rparr>)))"
    by code_simp
  have h2: "\<forall>c \<in> set [\<lparr>callBids = [], callAsks = [], callLastPrice = 50100,
                     callNow = 500000, callRnd = 0\<rparr>]. callNow c \<le> 400000 + 300000"
    by simp
  from fail_cooldown_blocks_bucket [OF h1 h2] h1 show ?thesis by simp
qed

text \<open>
  Without the cooldown the same second call does produce a \<open>FAIL\<close> in the bucket: the
  ask event at 50005 fails when the engine has not seen the first call.
\<close>

lemma fail_without_cooldown:
  "map (state \<circ> snd)
     (events (processCall
        \<lparr>callBids = [], callAsks = [], callLastPrice = 50100, callNow = 500000, callRnd = 0\<rparr>
        \<lparr>events = [((ask, 50005), holdingAsk)], windowMinutes = 30,
         failCooldowns = Map.empty\<rparr>)) = [FAIL]"
  by code_simp

text \<open>
  C7. The claim is that re-detecting an existing live event that has existed for more than
  60 s and has not been reconfirmed for more than 10 s increments \<open>failedPushes\<close>. The update
  writes \<^verbatim>\<open>existing.lastConfirmed = now\<close> before the test
  \<^verbatim>\<open>(now - existing.lastConfirmed) > 10000\<close>, so the test reads 0 and never holds. Here a
  \<open>STACK\<close> event first detected at 0 and last confirmed at 50000 is re-detected at 100000:
  it is reinforced (4 confirmations, confirmed at 100000) and \<open>failedPushes\<close> stays 0.
\<close>

theorem processLevels_failed_push_not_counted:
  "100000 - firstDetected (stackBid 50000) > 60000
   \<and> 100000 - lastConfirmed (stackBid 50000) > 10000
   \<and> detect stackLevel = Some (TypeSTACK, 60)
   \<and> map (\<lambda>(k, e). (state e, confirmations e, lastConfirmed e, failedPushes e))
        (processLevels [stackLevel] bid 100000 50010 [((bid, 50000), stackBid 50000)])
      = [(STACK, 4, 100000, 0)]"
  by code_simp

text \<open>The counter is in fact never changed by a reinforcement.\<close>

lemma reinforce_failedPushes:
  "failedPushes (reinforce detectedType now lvl existing) = failedPushes existing"
  by (simp add: reinforce_def Let_def)



subsection \<open>Smart zone aggregation and candle enrichment\<close>

lemma foldl_filterZone:
  "foldl (filterZone eng noiseLevel thr groupSize lastPrice) acc zs =
     acc @ map (\<lambda>z. (scoreZone thr groupSize lastPrice z)\<lparr>isSignificant := True\<rparr>)
             (filter (\<lambda>z. noiseScore (scoreZone thr groupSize lastPrice z)
                            < noiseThreshold eng noiseLevel) zs)"
  by (induction zs arbitrary: acc) (simp_all add: filterZone_def Let_def)

lemma length_filter_mono:
  "(\<And>x. P x \<Longrightarrow> Q x) \<Longrightarrow> length (filter P xs) \<le> length (filter Q xs)"
  by (induction xs) auto

lemma length_aggregateZones:
  "length (aggregateZones eng now rawMap groupSize timeWindow noiseLevel lastPrice) =
     length (filter
       (\<lambda>z. noiseScore (scoreZone
                (calculateDynamicVolumeThreshold
                   (map snd (foldl (addRaw eng now groupSize (now - timeWindow)) []
                               (map snd rawMap))))
                groupSize lastPrice z)
             < noiseThreshold eng noiseLevel)
       (map snd (foldl (addRaw eng now groupSize (now - timeWindow)) [] (map snd rawMap))))"
  by (simp add: aggregateZones_def Let_def foldl_filterZone)

text \<open>
  C8. For the same raw map, group size, time window, last price, clock value and engine
  volatility, \<open>aggregateZones\<close> returns at most as many zones with noise level \<open>HIGH\<close> as
  with \<open>MEDIUM\<close>, and at most as many with \<open>MEDIUM\<close> as with \<open>LOW\<close>.
\<close>

theorem aggregateZones_strictness_monotone:
  "length (aggregateZones eng now rawMap groupSize timeWindow HIGH lastPrice)
     \<le> length (aggregateZones eng now rawMap groupSize timeWindow MEDIUM lastPrice)
   \<and> length (aggregateZones eng now rawMap groupSize timeWindow MEDIUM lastPrice)
     \<le> length (aggregateZones eng now rawMap groupSize timeWindow LOW lastPrice)"
  unfolding length_aggregateZones
  by (intro conjI length_filter_mono) (simp_all add: noiseThreshold_def)

text \<open>
  What the first pass does with the cumulative delta: it restarts from 0 when the previous
  timestamp is not 0 and the two days of the month differ, and carries on otherwise.
\<close>

lemma enrichStep_cvd:
  "cvd (snd (enrichStep st c)) =
     Some ((if lastTime st \<noteq> 0 \<and> getUTCDate (timestamp c) \<noteq> getUTCDate (lastTime st)
            then 0 else cumDelta st)
           + (takerBuyVolume c - (volume c - takerBuyVolume c)))"
  by (simp add: enrichStep_def Let_def)

lemma utcCalendarDate_samples:
  "utcCalendarDate 0 = (1970, 1, 1)"
  "utcCalendarDate 1704412800000 = (2024, 1, 5)"
  "utcCalendarDate 1704499200000 = (2024, 1, 6)"
  "utcCalendarDate 1707091200000 = (2024, 2, 5)"
  by code_simp+

text \<open>
  C4. The claim is that the accumulators reset whenever a candle's UTC calendar date differs
  from the previous candle's. The source compares \<^verbatim>\<open>getUTCDate()\<close>, the day of the month
  only. Two consecutive candles on 2024-01-05 and 2024-02-05 have different calendar dates
  and the same day of the month: nothing is reset, and the second candle's \<open>cvd\<close> is
  \<open>4 + 2 = 6\<close>, not its own delta 2.
\<close>

theorem enrichCandlesWithContext_month_apart_no_reset:
  "utcCalendarDate 1704412800000 = (2024, 1, 5)
   \<and> utcCalendarDate 1707091200000 = (2024, 2, 5)
   \<and> map (\<lambda>c. (delta c, cvd c))
        (enrichCandlesWithContext
          [\<lparr>timestamp = 1704412800000, openPrice = 100, high = 100, low = 100, close = 100,
            volume = 10, takerBuyVolume = 7, delta = None, cvd = None, vwap = None,
            vwapStd = None, divergence = None\<rparr>,
           \<lparr>timestamp = 1707091200000, openPrice = 100, high = 100, low = 100, close = 100,
            volume = 4, takerBuyVolume = 3, delta = None, cvd = None, vwap = None,
            vwapStd = None, divergence = None\<rparr>])
     = [(Some 4, Some 4), (Some 2, Some 6)]"
  by (simp add: utcCalendarDate_samples enrichCandlesWithContext_def divergencePass_def
      LOOKBACK_def enrichStep_def getUTCDate_def Let_def)

text \<open>With the second candle on the next day the reset happens.\<close>

lemma enrichCandlesWithContext_next_day_reset:
  "utcCalendarDate 1704412800000 = (2024, 1, 5)
   \<and> utcCalendarDate 1704499200000 = (2024, 1, 6)
   \<and> map (\<lambda>c. (delta c, cvd c))
        (enrichCandlesWithContext
          [\<lparr>timestamp = 1704412800000, openPrice = 100, high = 100, low = 100, close = 100,
            volume = 10, takerBuyVolume = 7, delta = None, cvd = None, vwap = None,
            vwapStd = None, divergence = None\<rparr>,
           \<lparr>timestamp = 1704499200000, openPrice = 100, high = 100, low = 100, close = 100,
            volume = 4, takerBuyVolume = 3, delta = None, cvd = None, vwap = None,
            vwapStd = None, divergence = None\<rparr>])
     = [(Some 4, Some 4), (Some 2, Some 2)]"
  by (simp add: utcCalendarDate_samples enrichCandlesWithContext_def divergencePass_def
      LOOKBACK_def enrichStep_def getUTCDate_def Let_def)

end
